theory Spec2Isabelle
  imports Complex_Main "HOL-Library.Sublist" "HOL-Library.AList"
begin

section \<open>JavaScript strings\<close>

text \<open>
  A JavaScript string is a sequence of UTF-16 code units. A code unit is modelled by its
  number (below 65536), a string by the list of its code units; the length, indexing,
  \<^verbatim>\<open>substring\<close> and regular expressions without the \<^verbatim>\<open>u\<close> flag all count code units.
  \<open>js\<close> reads an ASCII literal as such a string.
\<close>

type_synonym jsstring = "nat list"

definition js :: "string \<Rightarrow> jsstring" where
  "js s = map of_char s"

text \<open>
  The characters that \<^verbatim>\<open>String.prototype.trim\<close> removes and that \<^verbatim>\<open>\s\<close> matches: the
  white space and line terminator code points of ECMAScript (TAB, LF, VT, FF, CR, SP,
  NBSP, U+1680, U+2000 to U+200A, LS, PS, U+202F, U+205F, U+3000, U+FEFF).
\<close>

definition is_ws :: "nat \<Rightarrow> bool" where
  "is_ws c \<longleftrightarrow>
     c = 9 \<or> c = 10 \<or> c = 11 \<or> c = 12 \<or> c = 13 \<or> c = 32 \<or> c = 160 \<or> c = 5760 \<or>
     (8192 \<le> c \<and> c \<le> 8202) \<or> c = 8232 \<or> c = 8233 \<or> c = 8239 \<or> c = 8287 \<or>
     c = 12288 \<or> c = 65279"

text \<open>\<^verbatim>\<open>s.trim()\<close>: white space is dropped at both ends.\<close>

definition trim :: "jsstring \<Rightarrow> jsstring" where
  "trim s = rev (dropWhile is_ws (rev (dropWhile is_ws s)))"

text \<open>
  \<^verbatim>\<open>s.split(sep)\<close> for a separator of one code unit: the pieces between the occurrences of
  the separator, in order; a string without the separator (the empty string too) is one
  piece.
\<close>

function split_at :: "nat \<Rightarrow> jsstring \<Rightarrow> jsstring list" where
  "split_at sep s =
     (case dropWhile (\<lambda>c. c \<noteq> sep) s of
        [] \<Rightarrow> [s]
      | _ # rest \<Rightarrow> takeWhile (\<lambda>c. c \<noteq> sep) s # split_at sep rest)"
  by pat_completeness auto
termination
proof (relation "measure (\<lambda>(sep, s). length s)")
  show "wf (measure (\<lambda>(sep, s). length s))" by simp
next
  fix sep :: nat and s :: jsstring and x rest
  assume "dropWhile (\<lambda>c. c \<noteq> sep) s = x # rest"
  then have "length (x # rest) \<le> length s"
    using length_dropWhile_le [of "\<lambda>c. c \<noteq> sep" s] by simp
  then show "((sep, rest), (sep, s)) \<in> measure (\<lambda>(sep, s). length s)" by simp
qed

declare split_at.simps [simp del]

section \<open>The prompt list of a batch\<close>

text \<open>
  Line 81 of \<^verbatim>\<open>app.component.ts\<close>:
  \<^verbatim>\<open>this.prompts().trim().split('\n').filter(p => p.trim() !== '')\<close>.
  The lines that pass the filter are kept as they are.
\<close>

definition promptsToProcess :: "jsstring \<Rightarrow> jsstring list" where
  "promptsToProcess raw = filter (\<lambda>p. trim p \<noteq> []) (split_at 10 (trim raw))"

text \<open>
  The Prompt Splitter as the specification words it: trim the outer white space, split on
  newline boundaries, trim each line, discard the lines that are empty after trimming.
\<close>

definition spec_prompt_splitter :: "jsstring \<Rightarrow> jsstring list" where
  "spec_prompt_splitter raw = filter (\<lambda>l. l \<noteq> []) (map trim (split_at 10 (trim raw)))"

section \<open>The component state\<close>

datatype GenerationStatus = Idle | Loading | Success | Error

record ImageGenerationResult =
  prompt :: jsstring
  status :: GenerationStatus
  images :: "jsstring list option"
  error :: "jsstring option"

text \<open>
  Modelled from the spec: the types \<^verbatim>\<open>AspectRatio\<close> and \<^verbatim>\<open>ImageModel\<close> are declared in
  \<^verbatim>\<open>services/gemini.service.ts\<close>, which is not among the sources. Their values are the five
  ratios of \<^verbatim>\<open>aspectRatios\<close> (1:1, 16:9, 9:16, 4:3, 3:4) and the four identifiers of
  \<^verbatim>\<open>imageModels\<close> in \<^verbatim>\<open>app.component.ts\<close>, the enumerations of section 6 of the specification.
\<close>

datatype AspectRatio = Ratio_1_1 | Ratio_16_9 | Ratio_9_16 | Ratio_4_3 | Ratio_3_4

datatype ImageModel =
  Gemini_2_5_flash_image | Gemini_3_pro_image_preview
  | Imagen_4_0_generate_001 | Imagen_3_0_generate_001

text \<open>The signals of \<^verbatim>\<open>AppComponent\<close>, each holding its current value.\<close>

record AppComponent =
  prompts :: jsstring
  aspectRatio :: AspectRatio
  numberOfImages :: nat
  results :: "ImageGenerationResult list"
  isLoading :: bool
  isZipping :: bool
  stylePreset :: jsstring
  model :: ImageModel
  totalQueueCount :: nat
  completedQueueCount :: nat
  currentPromptIndex :: nat

text \<open>
  What leaves the component is recorded beside the signals: the requests handed to
  \<^verbatim>\<open>geminiService.generateImage\<close>, the files handed to \<^verbatim>\<open>saveAs\<close> (name and archive
  entries), and the values passed to \<^verbatim>\<open>console.error\<close>, each in the order of occurrence.
\<close>

record request =
  req_prompt :: jsstring
  req_aspectRatio :: AspectRatio
  req_numberOfImages :: nat
  req_model :: ImageModel

text \<open>
  A value thrown by a collaborator: an instance of \<^verbatim>\<open>Error\<close> with its \<^verbatim>\<open>message\<close>, or
  any other value (a string, an object literal, \<^verbatim>\<open>undefined\<close>) with the message that it
  carries, if it carries one.
\<close>

datatype thrown = JsError jsstring | NotAnError "jsstring option"

type_synonym archive = "(jsstring \<times> jsstring) list"

record world = AppComponent +
  sent :: "request list"
  saved :: "(jsstring \<times> archive) list"
  console :: "thrown list"

text \<open>
  The Generation Client is a parameter: \<open>cl k rq\<close> is how the awaited call settles for the
  request \<open>rq\<close> when \<open>k\<close> requests have been issued before it, either rejected with a thrown
  value or resolved with the encoded images.
\<close>

type_synonym client = "nat \<Rightarrow> request \<Rightarrow> thrown + jsstring list"

section \<open>The sequential generation queue\<close>

text \<open>The constants of lines 95 to 98 and the prompt list of line 81, read once per batch.\<close>

record snapshot =
  snap_prompts :: "jsstring list"
  snap_aspectRatio :: AspectRatio
  snap_numberOfImages :: nat
  snap_stylePreset :: jsstring
  snap_model :: ImageModel

definition snapshot_of :: "world \<Rightarrow> snapshot" where
  "snapshot_of w =
     \<lparr>snap_prompts = promptsToProcess (prompts w),
      snap_aspectRatio = aspectRatio w,
      snap_numberOfImages = numberOfImages w,
      snap_stylePreset = stylePreset w,
      snap_model = model w\<rparr>"

text \<open>Line 105: a non-empty string is truthy.\<close>

definition finalPrompt :: "jsstring \<Rightarrow> jsstring \<Rightarrow> jsstring" where
  "finalPrompt stylePresetValue p =
     (if stylePresetValue \<noteq> [] then p @ js '', '' @ stylePresetValue else p)"

definition request_for :: "snapshot \<Rightarrow> nat \<Rightarrow> request" where
  "request_for L i =
     \<lparr>req_prompt = finalPrompt (snap_stylePreset L) (snap_prompts L ! i),
      req_aspectRatio = snap_aspectRatio L,
      req_numberOfImages = snap_numberOfImages L,
      req_model = snap_model L\<rparr>"

text \<open>Line 120.\<close>

definition errorMessage :: "thrown \<Rightarrow> jsstring" where
  "errorMessage e =
     (case e of JsError m \<Rightarrow> m | NotAnError v \<Rightarrow> js ''An unknown error occurred'')"

text \<open>
  The error text as the specification words it: the message extracted from the failure,
  and a generic unknown-error string if the failure carries no message. An empty message
  is no message.
\<close>

definition carried_message :: "thrown \<Rightarrow> jsstring option" where
  "carried_message e =
     (case e of
        JsError m \<Rightarrow> if m = [] then None else Some m
      | NotAnError v \<Rightarrow>
          (case v of None \<Rightarrow> None | Some m \<Rightarrow> if m = [] then None else Some m))"

definition spec_errorMessage :: "thrown \<Rightarrow> jsstring" where
  "spec_errorMessage e =
     (case carried_message e of
        Some m \<Rightarrow> m
      | None \<Rightarrow> js ''An unknown error occurred'')"

text \<open>The entry written at lines 116 and 123 for a prompt and the way its call settled.\<close>

definition settled_entry :: "jsstring \<Rightarrow> thrown + jsstring list \<Rightarrow> ImageGenerationResult" where
  "settled_entry p r =
     (case r of
        Inr imageB64s \<Rightarrow> \<lparr>prompt = p, status = Success, images = Some imageB64s, error = None\<rparr>
      | Inl e \<Rightarrow> \<lparr>prompt = p, status = Error, images = None, error = Some (errorMessage e)\<rparr>)"

text \<open>
  One turn of the loop of lines 101 to 134 for the index \<open>i\<close>, which the loop keeps below
  the number of prompts; the store has one entry per prompt all along, so that the
  assignment to \<^verbatim>\<open>newResults[i]\<close> replaces an existing entry. The pause of line 132 changes
  no signal.
\<close>

definition iteration :: "client \<Rightarrow> snapshot \<Rightarrow> nat \<Rightarrow> world \<Rightarrow> world" where
  "iteration cl L i w =
     (let w1 = w\<lparr>currentPromptIndex := i + 1\<rparr>;
          p = snap_prompts L ! i;
          rq = request_for L i;
          r = cl (length (sent w1)) rq;
          w2 = w1\<lparr>sent := sent w1 @ [rq]\<rparr>;
          w3 = w2\<lparr>results := (results w2)[i := settled_entry p r]\<rparr>
      in w3\<lparr>completedQueueCount := completedQueueCount w3 + 1\<rparr>)"

function process_from :: "client \<Rightarrow> snapshot \<Rightarrow> nat \<Rightarrow> world \<Rightarrow> world" where
  "process_from cl L i w =
     (if i < length (snap_prompts L) then process_from cl L (Suc i) (iteration cl L i w)
      else w)"
  by pat_completeness auto
termination
  by (relation "measure (\<lambda>(cl, L, i, w). length (snap_prompts L) - i)") auto

text \<open>The same loop, keeping the state found at each test of the loop condition.\<close>

function loop_states :: "client \<Rightarrow> snapshot \<Rightarrow> nat \<Rightarrow> world \<Rightarrow> world list" where
  "loop_states cl L i w =
     (if i < length (snap_prompts L) then w # loop_states cl L (Suc i) (iteration cl L i w)
      else [w])"
  by pat_completeness auto
termination
  by (relation "measure (\<lambda>(cl, L, i, w). length (snap_prompts L) - i)") auto

text \<open>Lines 80 to 92: the busy flag, the counters and the placeholders.\<close>

definition batch_start :: "world \<Rightarrow> world" where
  "batch_start w =
     (let w1 = w\<lparr>isLoading := True\<rparr>;
          ps = promptsToProcess (prompts w1)
      in w1\<lparr>totalQueueCount := length ps,
            completedQueueCount := 0,
            currentPromptIndex := 0,
            results := map (\<lambda>p. \<lparr>prompt = p, status = Loading, images = None, error = None\<rparr>)
                         ps\<rparr>)"

definition generateImages :: "client \<Rightarrow> world \<Rightarrow> world" where
  "generateImages cl w =
     (if isLoading w \<or> trim (prompts w) = [] then w
      else (process_from cl (snapshot_of w) 0 (batch_start w))\<lparr>isLoading := False\<rparr>)"

declare process_from.simps [simp del] loop_states.simps [simp del]

text \<open>
  The component as it is constructed (lines 45 to 57), with nothing sent, saved or logged
  yet.
\<close>

definition initial_world :: world where
  "initial_world =
     \<lparr>prompts = js (''A photorealistic portrait of a pensive android in a neon-lit alley.'' @
                    ''\<newline>A majestic fantasy castle perched on a floating island at sunrise.'' @
                    ''\<newline>A cute, fluffy red panda enjoying a bowl of ramen noodles.''),
      aspectRatio = Ratio_1_1,
      numberOfImages = 1,
      results = [],
      isLoading = False,
      isZipping = False,
      stylePreset = [],
      model = Gemini_2_5_flash_image,
      totalQueueCount = 0,
      completedQueueCount = 0,
      currentPromptIndex = 0,
      sent = [],
      saved = [],
      console = []\<rparr>"

section \<open>Progress\<close>

text \<open>
  Lines 67 to 71. The counters are array lengths, which a JavaScript number holds exactly;
  the quotient and the product are double precision operations, each the exact result
  rounded. The rounding is the parameter \<open>rnd\<close>. What is used of it is stated by
  \<open>double_rounding\<close>: it is monotone, and it leaves alone every number \<open>m / 2 ^ 32\<close> with
  \<open>\<bar>m\<bar> \<le> 2 ^ 53\<close>, all of which are doubles.
\<close>

definition progressPercentage :: "(real \<Rightarrow> real) \<Rightarrow> world \<Rightarrow> real" where
  "progressPercentage rnd w =
     (let total = totalQueueCount w
      in if total = 0 then 0
         else rnd (rnd (real (completedQueueCount w) / real total) * 100))"

definition double_rounding :: "(real \<Rightarrow> real) \<Rightarrow> bool" where
  "double_rounding rnd \<longleftrightarrow>
     mono rnd \<and> (\<forall>m::int. \<bar>m\<bar> \<le> 2 ^ 53 \<longrightarrow> rnd (real_of_int m / 2 ^ 32) = real_of_int m / 2 ^ 32)"

section \<open>File names\<close>

text \<open>
  \<^verbatim>\<open>toLowerCase\<close>, code unit by code unit. The letters A to Z become a to z; U+0130 becomes
  i followed by U+0307, and the Kelvin sign U+212A becomes k. These are the only code
  points whose lower case contains a code unit below 128. Every other code unit is left
  in place here: its lower case (also that of a surrogate pair, or of a sigma at the end
  of a word) consists of code units above 127 that are not white space, which the
  replacement that follows in \<open>sanitizedPrompt\<close> deletes just as it deletes the code unit
  itself.
\<close>

definition lower_unit :: "nat \<Rightarrow> jsstring" where
  "lower_unit c =
     (if 65 \<le> c \<and> c \<le> 90 then [c + 32]
      else if c = 304 then [105, 775]
      else if c = 8490 then [107]
      else [c])"

definition toLowerCase :: "jsstring \<Rightarrow> jsstring" where
  "toLowerCase s = concat (map lower_unit s)"

text \<open>The class \<^verbatim>\<open>[a-z0-9\s-]\<close>, whose complement line 161 removes.\<close>

definition kept :: "nat \<Rightarrow> bool" where
  "kept c \<longleftrightarrow> (97 \<le> c \<and> c \<le> 122) \<or> (48 \<le> c \<and> c \<le> 57) \<or> is_ws c \<or> c = 45"

text \<open>\<^verbatim>\<open>.replace(/\s+/g, '_')\<close>: every maximal run of white space becomes one underscore.\<close>

function collapse_ws :: "jsstring \<Rightarrow> jsstring" where
  "collapse_ws [] = []"
| "collapse_ws (c # cs) =
     (if is_ws c then 95 # collapse_ws (dropWhile is_ws cs) else c # collapse_ws cs)"
  by pat_completeness auto
termination
proof (relation "measure length")
  show "wf (measure length)" by simp
next
  fix c :: nat and cs :: jsstring
  show "(dropWhile is_ws cs, c # cs) \<in> measure length"
    using length_dropWhile_le [of is_ws cs] by simp
next
  fix c :: nat and cs :: jsstring
  show "(cs, c # cs) \<in> measure length" by simp
qed

text \<open>Lines 159 to 163, and again lines 192 to 196.\<close>

definition sanitizedPrompt :: "jsstring \<Rightarrow> jsstring" where
  "sanitizedPrompt p = take 50 (collapse_ws (filter kept (toLowerCase p)))"

text \<open>A natural number in a template literal: its decimal digits.\<close>

function decimal :: "nat \<Rightarrow> jsstring" where
  "decimal n = (if n < 10 then [48 + n] else decimal (n div 10) @ [48 + n mod 10])"
  by pat_completeness auto
termination
  by (relation "measure id") auto

declare decimal.simps [simp del]

text \<open>Lines 165 and 198; the empty string is falsy.\<close>

definition filename :: "jsstring \<Rightarrow> nat \<Rightarrow> jsstring" where
  "filename p index =
     (if sanitizedPrompt p \<noteq> [] then sanitizedPrompt p else js ''generated_image'')
       @ js ''_'' @ decimal (index + 1) @ js ''.jpeg''"

text \<open>
  \<^verbatim>\<open>downloadImage\<close> returns nothing; what it does is click a link, given here by its two
  attributes. No link is made for an empty image string.
\<close>

record link =
  href :: jsstring
  download :: jsstring

definition downloadImage :: "jsstring \<Rightarrow> jsstring \<Rightarrow> nat \<Rightarrow> link option" where
  "downloadImage imageB64 p index =
     (if imageB64 = [] then None
      else Some \<lparr>href = imageB64, download = filename p index\<rparr>)"

text \<open>
  The derivation as the specification words it: lowercase the prompt, strip all characters
  outside \<^verbatim>\<open>[a-z0-9 -]\<close>, collapse white space runs to single underscores, truncate to 50
  characters, default to \<^verbatim>\<open>generated_image\<close>, append the index plus one and \<^verbatim>\<open>.jpeg\<close>.
\<close>

definition spec_kept :: "nat \<Rightarrow> bool" where
  "spec_kept c \<longleftrightarrow> (97 \<le> c \<and> c \<le> 122) \<or> (48 \<le> c \<and> c \<le> 57) \<or> c = 32 \<or> c = 45"

definition spec_filename :: "jsstring \<Rightarrow> nat \<Rightarrow> jsstring" where
  "spec_filename p index =
     (let stripped = filter spec_kept (toLowerCase p);
          truncated = take 50 (collapse_ws stripped)
      in (if truncated = [] then js ''generated_image'' else truncated)
           @ js ''_'' @ decimal (index + 1) @ js ''.jpeg'')"

text \<open>Every white space character read as a space.\<close>

definition ws_as_space :: "jsstring \<Rightarrow> jsstring" where
  "ws_as_space s = map (\<lambda>c. if is_ws c then 32 else c) s"

text \<open>
  A code unit of which nothing is left by lines 160 and 161: not a letter, a digit, white
  space or a hyphen, and not one of the two code points whose lower case has a letter.
\<close>

definition symbol_unit :: "nat \<Rightarrow> bool" where
  "symbol_unit c \<longleftrightarrow>
     \<not> (65 \<le> c \<and> c \<le> 90) \<and> \<not> (97 \<le> c \<and> c \<le> 122) \<and> \<not> (48 \<le> c \<and> c \<le> 57) \<and>
     \<not> is_ws c \<and> c \<noteq> 45 \<and> c \<noteq> 304 \<and> c \<noteq> 8490"

section \<open>Archive export\<close>

text \<open>
  Lines 189 and 190: the piece after the first comma, if there is one and it is not
  empty.
\<close>

definition base64Data :: "jsstring \<Rightarrow> jsstring option" where
  "base64Data imageB64 =
     (case split_at 44 imageB64 of
        _ # d # _ \<Rightarrow> if d = [] then None else Some d
      | _ \<Rightarrow> None)"

text \<open>
  \<^verbatim>\<open>zip.file(name, data)\<close> of JSZip stores the data under the name, in place of what the
  archive held under that name before: the archive is a list of named entries, and
  \<open>AList.update\<close> is that operation. The loop of lines 187 to 201 over the images of one
  result, from the index \<open>i\<close> on:
\<close>

fun add_images :: "jsstring \<Rightarrow> jsstring list \<Rightarrow> nat \<Rightarrow> archive \<Rightarrow> archive" where
  "add_images p [] i z = z"
| "add_images p (imageB64 # rest) i z =
     (case base64Data imageB64 of
        None \<Rightarrow> add_images p rest (Suc i) z
      | Some d \<Rightarrow> add_images p rest (Suc i) (AList.update (filename p i) d z))"

text \<open>Line 182, and the loop of lines 184 to 202.\<close>

definition successful :: "ImageGenerationResult \<Rightarrow> bool" where
  "successful r \<longleftrightarrow>
     status r = Success \<and> (case images r of None \<Rightarrow> False | Some imgs \<Rightarrow> imgs \<noteq> [])"

fun add_results :: "ImageGenerationResult list \<Rightarrow> archive \<Rightarrow> archive" where
  "add_results [] z = z"
| "add_results (r # rs) z =
     (case images r of
        None \<Rightarrow> add_results rs z
      | Some imgs \<Rightarrow> add_results rs (add_images (prompt r) imgs 0 z))"

definition zip_entries :: "ImageGenerationResult list \<Rightarrow> archive" where
  "zip_entries rs = add_results (filter successful rs) []"

text \<open>The images that the loops hand to \<^verbatim>\<open>zip.file\<close>, in order.\<close>

definition eligible_images :: "ImageGenerationResult list \<Rightarrow> jsstring list" where
  "eligible_images rs =
     concat (map (\<lambda>r. case images r of
                         None \<Rightarrow> []
                       | Some imgs \<Rightarrow> filter (\<lambda>imageB64. base64Data imageB64 \<noteq> None) imgs)
                 (filter successful rs))"

text \<open>
  The packaging collaborators are parameters: \<open>generateAsync z\<close> tells whether building
  the package of the archive \<open>z\<close> is rejected, and with which value; \<open>saveAs z name\<close> tells
  whether saving that package under the name throws.
\<close>

record packaging =
  generateAsync :: "archive \<Rightarrow> thrown option"
  saveAs :: "archive \<Rightarrow> jsstring \<Rightarrow> thrown option"

text \<open>The body of the \<^verbatim>\<open>try\<close> block, lines 181 to 205: a thrown value or the state reached.\<close>

definition zip_try :: "packaging \<Rightarrow> world \<Rightarrow> thrown + world" where
  "zip_try pk w =
     (let z = zip_entries (results w)
      in case generateAsync pk z of
           Some e \<Rightarrow> Inl e
         | None \<Rightarrow>
             (case saveAs pk z (js ''generated_images.zip'') of
                Some e \<Rightarrow> Inl e
              | None \<Rightarrow> Inr (w\<lparr>saved := saved w @ [(js ''generated_images.zip'', z)]\<rparr>)))"

text \<open>The state in which the export waits for the package: line 179 has run.\<close>

definition zip_pending :: "world \<Rightarrow> world" where
  "zip_pending w = w\<lparr>isZipping := True\<rparr>"

text \<open>
  \<^verbatim>\<open>downloadAllAsZip\<close>: \<open>Inl\<close> would be a rejected promise, \<open>Inr\<close> is the state in which it
  resolves.
\<close>

definition downloadAllAsZip :: "packaging \<Rightarrow> world \<Rightarrow> thrown + world" where
  "downloadAllAsZip pk w =
     (if isZipping w then Inr w
      else
        let w1 = zip_pending w;
            w2 = (case zip_try pk w1 of
                    Inr w' \<Rightarrow> w'
                  | Inl e \<Rightarrow> w1\<lparr>console := console w1 @ [e]\<rparr>)
        in Inr (w2\<lparr>isZipping := False\<rparr>))"

section \<open>Collaborators and stores of the examples\<close>

text \<open>
  The Generation Client of the example of section 8: it returns one image for the prompt
  \<^verbatim>\<open>a cat\<close> and fails with the message \<^verbatim>\<open>quota exceeded\<close> otherwise.
\<close>

definition cat_dog_client :: client where
  "cat_dog_client k rq =
     (if req_prompt rq = js ''a cat'' then Inr [js ''data:image/jpeg;base64,AAA'']
      else Inl (JsError (js ''quota exceeded'')))"

text \<open>
  A Generation Client whose every call fails: the first with a value that is not an
  \<^verbatim>\<open>Error\<close> and carries the message \<^verbatim>\<open>boom\<close>, the later ones with an \<^verbatim>\<open>Error\<close> of empty
  message.
\<close>

definition failing_client :: client where
  "failing_client k rq = Inl (if k = 0 then NotAnError (Some (js ''boom'')) else JsError [])"

text \<open>
  Packaging collaborators for the examples: one that builds and saves every archive, one
  whose \<^verbatim>\<open>generateAsync\<close> is rejected.
\<close>

definition working_packaging :: packaging where
  "working_packaging = \<lparr>generateAsync = (\<lambda>z. None), saveAs = (\<lambda>z name. None)\<rparr>"

definition failing_packaging :: packaging where
  "failing_packaging =
     \<lparr>generateAsync = (\<lambda>z. Some (JsError (js ''Invalid base64 input''))),
      saveAs = (\<lambda>z name. None)\<rparr>"

text \<open>
  A Result Store with two successful prompts that differ in a character outside
  \<^verbatim>\<open>[a-z0-9\s-]\<close> only.
\<close>

definition colliding_results :: "ImageGenerationResult list" where
  "colliding_results =
     [\<lparr>prompt = js ''a cat!'', status = Success,
       images = Some [js ''data:image/jpeg;base64,AAA''], error = None\<rparr>,
      \<lparr>prompt = js ''a cat?'', status = Success,
       images = Some [js ''data:image/jpeg;base64,BBB''], error = None\<rparr>]"

section \<open>Facts about strings\<close>

lemma split_at_Nil [simp]: "split_at sep [] = [[]]"
  by (simp add: split_at.simps)

lemma split_at_Cons:
  "split_at sep (c # cs) =
     (if c = sep then [] # split_at sep cs
      else (c # hd (split_at sep cs)) # tl (split_at sep cs))"
proof (cases "c = sep")
  case True
  then show ?thesis by (subst split_at.simps) simp
next
  case False
  then have d: "dropWhile (\<lambda>c. c \<noteq> sep) (c # cs) = dropWhile (\<lambda>c. c \<noteq> sep) cs"
    and t: "takeWhile (\<lambda>c. c \<noteq> sep) (c # cs) = c # takeWhile (\<lambda>c. c \<noteq> sep) cs"
    by simp_all
  have whole: "split_at sep (c # cs) =
      (case dropWhile (\<lambda>c. c \<noteq> sep) cs of
         [] \<Rightarrow> [c # cs]
       | _ # rest \<Rightarrow> (c # takeWhile (\<lambda>c. c \<noteq> sep) cs) # split_at sep rest)"
    by (subst split_at.simps) (simp only: d t)
  have tail: "split_at sep cs =
      (case dropWhile (\<lambda>c. c \<noteq> sep) cs of
         [] \<Rightarrow> [cs]
       | _ # rest \<Rightarrow> takeWhile (\<lambda>c. c \<noteq> sep) cs # split_at sep rest)"
    by (rule split_at.simps)
  show ?thesis
  proof (cases "dropWhile (\<lambda>c. c \<noteq> sep) cs")
    case Nil
    show ?thesis unfolding whole tail Nil using False by simp
  next
    case (Cons x rest)
    show ?thesis unfolding whole tail Cons using False by simp
  qed
qed

lemma split_at_not_Nil [simp]: "split_at sep s \<noteq> []"
  by (induction s) (auto simp: split_at_Cons)

lemma trim_Nil [simp]: "trim [] = []"
  by (simp add: trim_def)

lemma trim_empty_iff: "trim s = [] \<longleftrightarrow> (\<forall>c \<in> set s. is_ws c)"
proof
  assume e: "trim s = []"
  show "\<forall>c \<in> set s. is_ws c"
  proof (cases "dropWhile is_ws s")
    case Nil
    then show ?thesis by simp
  next
    case (Cons x xs)
    then have "\<not> is_ws x" using hd_dropWhile [of is_ws s] by auto
    moreover from e Cons have "is_ws x" by (simp add: trim_def)
    ultimately show ?thesis by simp
  qed
next
  assume "\<forall>c \<in> set s. is_ws c"
  then have d: "dropWhile is_ws s = []" by simp
  show "trim s = []" unfolding trim_def d by simp
qed

lemma split_at_no_sep: "p \<in> set (split_at sep s) \<Longrightarrow> sep \<notin> set p"
proof (induction s arbitrary: p)
  case Nil
  then show ?case by simp
next
  case (Cons c cs)
  have hd_in: "hd (split_at sep cs) \<in> set (split_at sep cs)" by simp
  have tl_in: "set (tl (split_at sep cs)) \<subseteq> set (split_at sep cs)"
    by (metis list.set_sel(2) split_at_not_Nil subsetI)
  show ?case
  proof (cases "c = sep")
    case True
    then show ?thesis using Cons by (auto simp: split_at_Cons)
  next
    case False
    then have "p = c # hd (split_at sep cs) \<or> p \<in> set (tl (split_at sep cs))"
      using Cons.prems by (simp add: split_at_Cons)
    then show ?thesis using False Cons.IH hd_in tl_in by auto
  qed
qed

lemma concat_split_at: "concat (split_at sep s) = filter (\<lambda>c. c \<noteq> sep) s"
proof (induction s)
  case Nil
  then show ?case by simp
next
  case (Cons c cs)
  have "hd (split_at sep cs) @ concat (tl (split_at sep cs)) = concat (split_at sep cs)"
    by (cases "split_at sep cs") simp_all
  then show ?case using Cons by (simp add: split_at_Cons)
qed

lemma trim_has_nonws: "trim s \<noteq> [] \<Longrightarrow> \<exists>c \<in> set (trim s). \<not> is_ws c"
proof -
  assume ne: "trim s \<noteq> []"
  let ?d = "dropWhile is_ws (rev (dropWhile is_ws s))"
  from ne have d: "?d \<noteq> []" by (simp add: trim_def)
  then have "\<not> is_ws (hd ?d)" by (rule hd_dropWhile)
  moreover have "hd ?d \<in> set (trim s)" using d by (simp add: trim_def)
  ultimately show ?thesis by blast
qed

lemma promptsToProcess_empty_iff: "promptsToProcess raw = [] \<longleftrightarrow> trim raw = []"
proof
  assume e: "promptsToProcess raw = []"
  show "trim raw = []"
  proof (rule ccontr)
    assume "trim raw \<noteq> []"
    then obtain c where c: "c \<in> set (trim raw)" "\<not> is_ws c"
      using trim_has_nonws by blast
    then have "c \<noteq> 10" by (auto simp: is_ws_def)
    with c have "c \<in> set (concat (split_at 10 (trim raw)))"
      by (simp add: concat_split_at)
    then obtain p where p: "p \<in> set (split_at 10 (trim raw))" "c \<in> set p" by auto
    with c have "trim p \<noteq> []" by (auto simp: trim_empty_iff)
    with p have "p \<in> set (promptsToProcess raw)" by (simp add: promptsToProcess_def)
    with e show False by simp
  qed
next
  assume "trim raw = []"
  then show "promptsToProcess raw = []" by (simp add: promptsToProcess_def)
qed

section \<open>Facts about the queue\<close>

lemma iteration_fields [simp]:
  "isLoading (iteration cl L i w) = isLoading w"
  "isZipping (iteration cl L i w) = isZipping w"
  "totalQueueCount (iteration cl L i w) = totalQueueCount w"
  "completedQueueCount (iteration cl L i w) = completedQueueCount w + 1"
  "currentPromptIndex (iteration cl L i w) = i + 1"
  "sent (iteration cl L i w) = sent w @ [request_for L i]"
  "saved (iteration cl L i w) = saved w"
  "console (iteration cl L i w) = console w"
  "prompts (iteration cl L i w) = prompts w"
  "results (iteration cl L i w) =
     (results w)[i := settled_entry (snap_prompts L ! i) (cl (length (sent w)) (request_for L i))]"
  by (simp_all add: iteration_def Let_def)

lemma process_from_step:
  "i < length (snap_prompts L) \<Longrightarrow>
     process_from cl L i w = process_from cl L (Suc i) (iteration cl L i w)"
  by (subst process_from.simps) simp

lemma process_from_done:
  "\<not> i < length (snap_prompts L) \<Longrightarrow> process_from cl L i w = w"
  by (subst process_from.simps) simp

lemma process_from_flags:
  "isLoading (process_from cl L i w) = isLoading w"
  "isZipping (process_from cl L i w) = isZipping w"
  "totalQueueCount (process_from cl L i w) = totalQueueCount w"
  "saved (process_from cl L i w) = saved w"
  "console (process_from cl L i w) = console w"
  "prompts (process_from cl L i w) = prompts w"
  "length (results (process_from cl L i w)) = length (results w)"
  by (induction cl L i w rule: process_from.induct; subst process_from.simps; simp)+

lemma process_from_completed:
  "i \<le> length (snap_prompts L) \<Longrightarrow>
     completedQueueCount (process_from cl L i w) + i =
       completedQueueCount w + length (snap_prompts L)"
proof (induction cl L i w rule: process_from.induct)
  case (1 cl L i w)
  show ?case
  proof (cases "i < length (snap_prompts L)")
    case True
    then have "completedQueueCount (process_from cl L (Suc i) (iteration cl L i w)) + Suc i =
        completedQueueCount (iteration cl L i w) + length (snap_prompts L)"
      using 1 by simp
    then show ?thesis using True by (simp add: process_from_step)
  next
    case False
    then show ?thesis using 1 by (simp add: process_from_done)
  qed
qed

lemma process_from_sent:
  "sent (process_from cl L i w) = sent w @ map (request_for L) [i..<length (snap_prompts L)]"
  by (induction cl L i w rule: process_from.induct)
     (subst process_from.simps, simp add: upt_conv_Cons)

lemma process_from_results:
  "j < length (results w) \<Longrightarrow>
   results (process_from cl L i w) ! j =
     (if i \<le> j \<and> j < length (snap_prompts L)
      then settled_entry (snap_prompts L ! j) (cl (length (sent w) + j - i) (request_for L j))
      else results w ! j)"
proof (induction cl L i w arbitrary: j rule: process_from.induct)
  case (1 cl L i w)
  show ?case
  proof (cases "i < length (snap_prompts L)")
    case True
    let ?w' = "iteration cl L i w"
    have len: "j < length (results ?w')" using 1(2) by simp
    have step: "results (process_from cl L i w) ! j =
        (if Suc i \<le> j \<and> j < length (snap_prompts L)
         then settled_entry (snap_prompts L ! j)
                (cl (length (sent ?w') + j - Suc i) (request_for L j))
         else results ?w' ! j)"
      using 1(1) [OF True len] True by (simp add: process_from_step)
    consider "j < i" | "j = i" | "i < j" by arith
    then show ?thesis
    proof cases
      case 1
      then show ?thesis using step by simp
    next
      case 2
      then show ?thesis using step True "1.prems" by simp
    next
      case 3
      then have "length (sent ?w') + j - Suc i = length (sent w) + j - i" by simp
      then show ?thesis using step 3 by simp
    qed
  next
    case False
    then have neg: "\<not> (i \<le> j \<and> j < length (snap_prompts L))" by arith
    have same: "results (process_from cl L i w) ! j = results w ! j"
      using False by (simp add: process_from_done)
    show ?thesis unfolding if_not_P [OF neg] by (rule same)
  qed
qed

lemma loop_states_step:
  "i < length (snap_prompts L) \<Longrightarrow>
     loop_states cl L i w = w # loop_states cl L (Suc i) (iteration cl L i w)"
  by (subst loop_states.simps) simp

lemma loop_states_done:
  "\<not> i < length (snap_prompts L) \<Longrightarrow> loop_states cl L i w = [w]"
  by (subst loop_states.simps) simp

lemma loop_states_not_Nil [simp]: "loop_states cl L i w \<noteq> []"
  by (subst loop_states.simps) simp

lemma last_loop_states: "last (loop_states cl L i w) = process_from cl L i w"
  by (induction cl L i w rule: process_from.induct)
     (subst loop_states.simps, subst process_from.simps, simp)

lemma length_loop_states:
  "i \<le> length (snap_prompts L) \<Longrightarrow>
     length (loop_states cl L i w) + i = Suc (length (snap_prompts L))"
proof (induction cl L i w rule: loop_states.induct)
  case (1 cl L i w)
  show ?case
  proof (cases "i < length (snap_prompts L)")
    case True
    then show ?thesis using 1 by (simp add: loop_states_step)
  next
    case False
    then show ?thesis using 1 by (simp add: loop_states_done)
  qed
qed

lemma loop_states_nth:
  "k < length (loop_states cl L i w) \<Longrightarrow>
     completedQueueCount (loop_states cl L i w ! k) = completedQueueCount w + k \<and>
     isLoading (loop_states cl L i w ! k) = isLoading w \<and>
     totalQueueCount (loop_states cl L i w ! k) = totalQueueCount w \<and>
     length (sent (loop_states cl L i w ! k)) = length (sent w) + k"
proof (induction cl L i w arbitrary: k rule: loop_states.induct)
  case (1 cl L i w)
  show ?case
  proof (cases "i < length (snap_prompts L)")
    case True
    show ?thesis
    proof (cases k)
      case 0
      then show ?thesis using True by (simp add: loop_states_step)
    next
      case (Suc k')
      then have "k' < length (loop_states cl L (Suc i) (iteration cl L i w))"
        using "1.prems" True by (simp add: loop_states_step)
      from 1(1) [OF True this] show ?thesis using True Suc by (simp add: loop_states_step)
    qed
  next
    case False
    then show ?thesis using "1.prems" by (simp add: loop_states_done)
  qed
qed

lemma loop_states_succ:
  "Suc k < length (loop_states cl L i w) \<Longrightarrow>
     loop_states cl L i w ! Suc k = iteration cl L (i + k) (loop_states cl L i w ! k)"
proof (induction cl L i w arbitrary: k rule: loop_states.induct)
  case (1 cl L i w)
  show ?case
  proof (cases "i < length (snap_prompts L)")
    case True
    note T = True
    show ?thesis
    proof (cases k)
      case 0
      show ?thesis using True 0 "1.prems"
        by (simp add: loop_states_step) (subst loop_states.simps, simp)
    next
      case (Suc k')
      then have "Suc k' < length (loop_states cl L (Suc i) (iteration cl L i w))"
        using "1.prems" True by (simp add: loop_states_step)
      from 1(1) [OF True this] show ?thesis using True Suc by (simp add: loop_states_step)
    qed
  next
    case False
    then show ?thesis using "1.prems" by (simp add: loop_states_done)
  qed
qed

section \<open>The prompt splitter\<close>

text \<open>
  C2, as the code has it. The list that \<^verbatim>\<open>generateImages\<close> processes consists of the lines
  of the trimmed input that are not empty after trimming, each kept as it stands in the
  input and not trimmed itself; trimming its elements gives the list that the
  specification describes. The lines keep their relative order (the list is a
  subsequence of the lines of the trimmed input), and every element is non-empty, holds a
  character that is not white space, and holds no newline.
\<close>

theorem promptsToProcess_lines:
  "map trim (promptsToProcess raw) = spec_prompt_splitter raw \<and>
   subseq (promptsToProcess raw) (split_at 10 (trim raw)) \<and>
   (\<forall>p \<in> set (promptsToProcess raw). p \<noteq> [] \<and> (\<exists>c \<in> set p. \<not> is_ws c) \<and> 10 \<notin> set p)"
proof (intro conjI ballI)
  show "map trim (promptsToProcess raw) = spec_prompt_splitter raw"
    by (simp add: promptsToProcess_def spec_prompt_splitter_def filter_map o_def)
  show "subseq (promptsToProcess raw) (split_at 10 (trim raw))"
    by (simp add: promptsToProcess_def)
next
  fix p assume p: "p \<in> set (promptsToProcess raw)"
  then have t: "trim p \<noteq> []" and s: "p \<in> set (split_at 10 (trim raw))"
    by (simp_all add: promptsToProcess_def)
  from t show "p \<noteq> []" by (auto simp: trim_def)
  from t show "\<exists>c \<in> set p. \<not> is_ws c" by (simp add: trim_empty_iff)
  from s show "10 \<notin> set p" by (rule split_at_no_sep)
qed

text \<open>The theorem at an input with padded lines and a blank line.\<close>

theorem promptsToProcess_lines_witness:
  "promptsToProcess (js ''  a cat \<newline>   \<newline> a dog  '') = [js ''a cat '', js '' a dog''] \<and>
   map trim [js ''a cat '', js '' a dog''] = spec_prompt_splitter (js ''  a cat \<newline>   \<newline> a dog  '') \<and>
   subseq [js ''a cat '', js '' a dog''] (split_at 10 (trim (js ''  a cat \<newline>   \<newline> a dog  ''))) \<and>
   js ''a cat '' \<noteq> [] \<and> 32 \<in> set (js ''a cat '') \<and> 97 \<in> set (js ''a cat '') \<and> \<not> is_ws 97 \<and> 10 \<notin> set (js ''a cat '')"
proof -
  have v: "promptsToProcess (js ''  a cat \<newline>   \<newline> a dog  '') = [js ''a cat '', js '' a dog'']"
    by (simp add: promptsToProcess_def trim_def is_ws_def js_def split_at.simps)
  show ?thesis
    using promptsToProcess_lines [of "js ''  a cat \<newline>   \<newline> a dog  ''"] unfolding v
    by (simp add: js_def is_ws_def)
qed

text \<open>
  C2 as stated fails: for the input \<^verbatim>\<open>"a \n b"\<close> the code processes \<^verbatim>\<open>"a "\<close> and \<^verbatim>\<open>" b"\<close>,
  where trimming each line gives \<^verbatim>\<open>"a"\<close> and \<^verbatim>\<open>"b"\<close>.
\<close>

theorem promptsToProcess_not_trimmed:
  "promptsToProcess (js ''a \<newline> b'') = [js ''a '', js '' b''] \<and>
   spec_prompt_splitter (js ''a \<newline> b'') = [js ''a'', js ''b''] \<and>
   promptsToProcess (js ''a \<newline> b'') \<noteq> spec_prompt_splitter (js ''a \<newline> b'')"
  by (simp add: promptsToProcess_def spec_prompt_splitter_def trim_def is_ws_def js_def split_at.simps)

lemma batch_start_fields [simp]:
  "isLoading (batch_start w)"
  "isZipping (batch_start w) = isZipping w"
  "totalQueueCount (batch_start w) = length (promptsToProcess (prompts w))"
  "completedQueueCount (batch_start w) = 0"
  "currentPromptIndex (batch_start w) = 0"
  "results (batch_start w) =
     map (\<lambda>p. \<lparr>prompt = p, status = Loading, images = None, error = None\<rparr>)
       (promptsToProcess (prompts w))"
  "sent (batch_start w) = sent w"
  "saved (batch_start w) = saved w"
  "console (batch_start w) = console w"
  "prompts (batch_start w) = prompts w"
  by (simp_all add: batch_start_def Let_def)

lemma snapshot_of_fields [simp]:
  "snap_prompts (snapshot_of w) = promptsToProcess (prompts w)"
  "snap_aspectRatio (snapshot_of w) = aspectRatio w"
  "snap_numberOfImages (snapshot_of w) = numberOfImages w"
  "snap_stylePreset (snapshot_of w) = stylePreset w"
  "snap_model (snapshot_of w) = model w"
  by (simp_all add: snapshot_of_def)

lemma generateImages_run:
  "\<not> isLoading w \<Longrightarrow> trim (prompts w) \<noteq> [] \<Longrightarrow>
     generateImages cl w = (process_from cl (snapshot_of w) 0 (batch_start w))\<lparr>isLoading := False\<rparr>"
  by (simp add: generateImages_def)

lemma cat_dog_prompts: "promptsToProcess (js ''a cat\<newline>a dog'') = [js ''a cat'', js ''a dog'']"
  by (simp add: promptsToProcess_def trim_def is_ws_def js_def split_at.simps)

lemma cat_dog_trim: "trim (js ''a cat\<newline>a dog'') \<noteq> []"
  by (simp add: trim_def is_ws_def js_def)

section \<open>The example batch\<close>

text \<open>
  C1. The batch \<^verbatim>\<open>"a cat\na dog"\<close> with aspect ratio 1:1, one image per prompt, no style
  preset and the model \<^verbatim>\<open>gemini-2.5-flash-image\<close>, started when no batch is running, with
  a Generation Client that returns \<^verbatim>\<open>["data:image/jpeg;base64,AAA"]\<close> for the request of
  \<^verbatim>\<open>a cat\<close> and fails with an \<^verbatim>\<open>Error\<close> of message \<^verbatim>\<open>quota exceeded\<close> for the request of
  \<^verbatim>\<open>a dog\<close>: when \<^verbatim>\<open>generateImages\<close> completes, the Result Store holds the success entry
  of \<^verbatim>\<open>a cat\<close> with that image, followed by the error entry of \<^verbatim>\<open>a dog\<close> with that message.
\<close>

theorem generateImages_cat_dog:
  assumes cfg: "prompts w = js ''a cat\<newline>a dog''" "aspectRatio w = Ratio_1_1"
      "numberOfImages w = 1" "stylePreset w = []" "model w = Gemini_2_5_flash_image"
    and idle: "\<not> isLoading w"
    and cat: "\<And>k. cl k \<lparr>req_prompt = js ''a cat'', req_aspectRatio = Ratio_1_1,
                 req_numberOfImages = 1, req_model = Gemini_2_5_flash_image\<rparr>
               = Inr [js ''data:image/jpeg;base64,AAA'']"
    and dog: "\<And>k. cl k \<lparr>req_prompt = js ''a dog'', req_aspectRatio = Ratio_1_1,
                 req_numberOfImages = 1, req_model = Gemini_2_5_flash_image\<rparr>
               = Inl (JsError (js ''quota exceeded''))"
  shows "results (generateImages cl w) =
           [\<lparr>prompt = js ''a cat'', status = Success,
             images = Some [js ''data:image/jpeg;base64,AAA''], error = None\<rparr>,
            \<lparr>prompt = js ''a dog'', status = Error,
             images = None, error = Some (js ''quota exceeded'')\<rparr>]"
proof -
  let ?L = "snapshot_of w"
  have ps: "snap_prompts ?L = [js ''a cat'', js ''a dog'']"
    using cfg by (simp add: cat_dog_prompts)
  have r0: "request_for ?L 0 = \<lparr>req_prompt = js ''a cat'', req_aspectRatio = Ratio_1_1,
                 req_numberOfImages = 1, req_model = Gemini_2_5_flash_image\<rparr>"
    using cfg by (simp add: request_for_def finalPrompt_def cat_dog_prompts)
  have r1: "request_for ?L (Suc 0) = \<lparr>req_prompt = js ''a dog'', req_aspectRatio = Ratio_1_1,
                 req_numberOfImages = 1, req_model = Gemini_2_5_flash_image\<rparr>"
    using cfg by (simp add: request_for_def finalPrompt_def cat_dog_prompts)
  have len: "length (snap_prompts ?L) = Suc (Suc 0)"
    using ps by simp
  have "process_from cl ?L 0 (batch_start w) =
      process_from cl ?L (Suc 0) (iteration cl ?L 0 (batch_start w))"
    by (rule process_from_step) (simp only: len)
  also have "\<dots> =
      process_from cl ?L (Suc (Suc 0)) (iteration cl ?L (Suc 0) (iteration cl ?L 0 (batch_start w)))"
    by (rule process_from_step) (simp only: len)
  also have "\<dots> = iteration cl ?L (Suc 0) (iteration cl ?L 0 (batch_start w))"
    by (rule process_from_done) (simp only: len)
  finally have run: "process_from cl ?L 0 (batch_start w) =
      iteration cl ?L (Suc 0) (iteration cl ?L 0 (batch_start w))" .
  have "generateImages cl w = (process_from cl ?L 0 (batch_start w))\<lparr>isLoading := False\<rparr>"
    using idle cfg by (simp add: generateImages_run cat_dog_trim)
  then show ?thesis
    unfolding run using cfg
    by (simp add: r0 r1 cat [unfolded One_nat_def] dog [unfolded One_nat_def]
        cat_dog_prompts settled_entry_def errorMessage_def)
qed

text \<open>The theorem for the freshly constructed component given that batch.\<close>

theorem generateImages_cat_dog_witness:
  "results (generateImages cat_dog_client (initial_world\<lparr>prompts := js ''a cat\<newline>a dog''\<rparr>)) =
           [\<lparr>prompt = js ''a cat'', status = Success,
             images = Some [js ''data:image/jpeg;base64,AAA''], error = None\<rparr>,
            \<lparr>prompt = js ''a dog'', status = Error,
             images = None, error = Some (js ''quota exceeded'')\<rparr>]"
proof (rule generateImages_cat_dog)
  show "\<not> isLoading (initial_world\<lparr>prompts := js ''a cat\<newline>a dog''\<rparr>)"
    by (simp add: initial_world_def)
  show "\<And>k. cat_dog_client k \<lparr>req_prompt = js ''a cat'', req_aspectRatio = Ratio_1_1,
                 req_numberOfImages = 1, req_model = Gemini_2_5_flash_image\<rparr>
               = Inr [js ''data:image/jpeg;base64,AAA'']"
    by (simp add: cat_dog_client_def)
  show "\<And>k. cat_dog_client k \<lparr>req_prompt = js ''a dog'', req_aspectRatio = Ratio_1_1,
                 req_numberOfImages = 1, req_model = Gemini_2_5_flash_image\<rparr>
               = Inl (JsError (js ''quota exceeded''))"
    by (simp add: cat_dog_client_def js_def)
qed (simp_all add: initial_world_def)

lemma loop_states_busy:
  assumes "st \<in> set (loop_states cl L i w)"
  shows "isLoading st = isLoading w"
proof -
  from assms obtain k where "k < length (loop_states cl L i w)" "st = loop_states cl L i w ! k"
    by (auto simp: in_set_conv_nth)
  then show ?thesis using loop_states_nth [of k cl L i w] by simp
qed

lemma blank_trim: "trim (js '' \<newline>  '') = []"
  by (simp add: trim_def is_ws_def js_def)

lemma generateImages_sent:
  assumes "\<not> isLoading w" and "trim (prompts w) \<noteq> []"
  shows "sent (generateImages cl w) =
           sent w @ map (request_for (snapshot_of w)) [0..<length (promptsToProcess (prompts w))]"
  using assms by (simp add: generateImages_run process_from_sent)

lemma generateImages_results_nth:
  assumes "\<not> isLoading w" and "trim (prompts w) \<noteq> []"
    and "i < length (promptsToProcess (prompts w))"
  shows "results (generateImages cl w) ! i =
           settled_entry (promptsToProcess (prompts w) ! i)
             (cl (length (sent w) + i) (request_for (snapshot_of w) i))"
  using assms process_from_results [of i "batch_start w" cl "snapshot_of w" 0]
  by (simp add: generateImages_run)

section \<open>The guard of the queue\<close>

text \<open>
  C4. A call of \<^verbatim>\<open>generateImages\<close> made while the busy flag is set, or with a prompt text
  that trims to the empty string, changes nothing: the Result Store, the busy flag, the
  queue counters and every other signal are as before, and no request is issued to the
  Generation Client (the list of requests sent is part of the state that is unchanged).
  The flag is set in every state that a running batch passes through between its start and
  the end of its loop, so that a call made in any of them is such a call.
\<close>

theorem generateImages_guard:
  "(isLoading w \<or> trim (prompts w) = [] \<longrightarrow> generateImages cl w = w) \<and>
   (\<forall>st \<in> set (loop_states cl' (snapshot_of w') 0 (batch_start w')). generateImages cl st = st)"
proof (intro conjI impI ballI)
  assume "isLoading w \<or> trim (prompts w) = []"
  then show "generateImages cl w = w" by (auto simp: generateImages_def)
next
  fix st assume "st \<in> set (loop_states cl' (snapshot_of w') 0 (batch_start w'))"
  then have "isLoading st" using loop_states_busy [of st] by simp
  then show "generateImages cl st = st" by (simp add: generateImages_def)
qed

text \<open>
  The theorem for a component whose flag is set, for one whose prompt text is blank, and
  for the state in which a batch has just started.
\<close>

theorem generateImages_guard_witness:
  "isLoading (initial_world\<lparr>isLoading := True\<rparr>) \<and>
   generateImages cat_dog_client (initial_world\<lparr>isLoading := True\<rparr>) = initial_world\<lparr>isLoading := True\<rparr> \<and>
   trim (prompts (initial_world\<lparr>prompts := js '' \<newline>  ''\<rparr>)) = [] \<and>
   generateImages cat_dog_client (initial_world\<lparr>prompts := js '' \<newline>  ''\<rparr>) = initial_world\<lparr>prompts := js '' \<newline>  ''\<rparr> \<and>
   batch_start initial_world \<in> set (loop_states cat_dog_client (snapshot_of initial_world) 0 (batch_start initial_world)) \<and>
   generateImages cat_dog_client (batch_start initial_world) = batch_start initial_world"
proof -
  let ?busy = "initial_world\<lparr>isLoading := True\<rparr>"
  let ?blank = "initial_world\<lparr>prompts := js '' \<newline>  ''\<rparr>"
  have 1: "isLoading ?busy" by simp
  have 2: "trim (prompts ?blank) = []" by (simp add: blank_trim)
  have 3: "batch_start initial_world \<in>
      set (loop_states cat_dog_client (snapshot_of initial_world) 0 (batch_start initial_world))"
    by (subst loop_states.simps) simp
  show ?thesis
    using generateImages_guard [of ?busy cat_dog_client cat_dog_client initial_world]
      generateImages_guard [of ?blank cat_dog_client cat_dog_client initial_world] 1 2 3
    by blast
qed

section \<open>The style preset\<close>

text \<open>
  C6. In a batch that starts (no batch running, prompt text not blank), the request issued
  for the prompt at position \<open>i\<close> carries the prompt followed by a comma, a space and the
  style preset read at the start of the batch when that preset is not empty, and the
  prompt unmodified otherwise, together with the aspect ratio, the image count and the
  model read at the start. One request is issued per prompt. Whatever the outcomes of the
  calls, the entry at position \<open>i\<close> of the final Result Store has the original prompt,
  without the style text, in its \<^verbatim>\<open>prompt\<close> field.
\<close>

theorem style_preset_request_only:
  assumes "\<not> isLoading w" and "trim (prompts w) \<noteq> []"
    and "i < length (promptsToProcess (prompts w))"
  shows "sent (generateImages cl w) ! (length (sent w) + i) =
           \<lparr>req_prompt =
               (if stylePreset w \<noteq> []
                then promptsToProcess (prompts w) ! i @ js '', '' @ stylePreset w
                else promptsToProcess (prompts w) ! i),
            req_aspectRatio = aspectRatio w,
            req_numberOfImages = numberOfImages w,
            req_model = model w\<rparr> \<and>
         length (sent (generateImages cl w)) = length (sent w) + length (promptsToProcess (prompts w)) \<and>
         length (results (generateImages cl w)) = length (promptsToProcess (prompts w)) \<and>
         prompt (results (generateImages cl w) ! i) = promptsToProcess (prompts w) ! i"
proof -
  let ?L = "snapshot_of w"
  let ?end = "process_from cl ?L 0 (batch_start w)"
  have g: "generateImages cl w = ?end\<lparr>isLoading := False\<rparr>"
    using assms by (simp add: generateImages_run)
  have s: "sent ?end = sent w @ map (request_for ?L) [0..<length (promptsToProcess (prompts w))]"
    by (simp add: process_from_sent)
  have r: "results ?end ! i =
      settled_entry (promptsToProcess (prompts w) ! i) (cl (length (sent w) + i) (request_for ?L i))"
    using assms(3) process_from_results [of i "batch_start w" cl ?L 0] by simp
  have p: "prompt (settled_entry q x) = q" for q x
    by (simp add: settled_entry_def split: sum.split)
  show ?thesis
    using assms(3) by (simp add: g s r p nth_append request_for_def finalPrompt_def process_from_flags)
qed

text \<open>The theorem for the second prompt of the example batch under the oil painting preset.\<close>

theorem style_preset_request_only_witness:
  "sent (generateImages cat_dog_client
          (initial_world\<lparr>prompts := js ''a cat\<newline>a dog'', stylePreset := js ''oil painting style''\<rparr>)) ! 1 =
     \<lparr>req_prompt = js ''a dog, oil painting style'', req_aspectRatio = Ratio_1_1,
      req_numberOfImages = 1, req_model = Gemini_2_5_flash_image\<rparr> \<and>
   prompt (results (generateImages cat_dog_client
          (initial_world\<lparr>prompts := js ''a cat\<newline>a dog'', stylePreset := js ''oil painting style''\<rparr>)) ! 1) =
     js ''a dog''"
proof -
  let ?w = "initial_world\<lparr>prompts := js ''a cat\<newline>a dog'', stylePreset := js ''oil painting style''\<rparr>"
  have a: "\<not> isLoading ?w" by (simp add: initial_world_def)
  have b: "trim (prompts ?w) \<noteq> []" by (simp add: cat_dog_trim)
  have c: "1 < length (promptsToProcess (prompts ?w))" by (simp add: cat_dog_prompts)
  have d: "js ''a dog'' @ js '', '' @ js ''oil painting style'' = js ''a dog, oil painting style''"
    by (simp add: js_def)
  have e: "js ''oil painting style'' \<noteq> []" by (simp add: js_def)
  show ?thesis
    using style_preset_request_only [OF a b c, of cat_dog_client]
    by (simp add: cat_dog_prompts d e initial_world_def)
qed


section \<open>The completed count\<close>

text \<open>
  C7. In a batch of \<open>N\<close> prompts that starts, the loop condition is tested \<open>N + 1\<close> times.
  At the test number \<open>k\<close> (from 0) the completed count is \<open>k\<close>, the total is \<open>N\<close> and the
  busy flag is set: the count starts at 0 and is \<open>N\<close> at the last test only. Between two
  tests lies one turn of the loop, and a turn adds exactly one to the count, whichever way
  the Generation Client settles the call. The final state is the state of the last test
  with the busy flag cleared: there the count equals \<open>N\<close>, which is at least 1.
\<close>

theorem completed_count_progress:
  assumes idle: "\<not> isLoading w" and nonblank: "trim (prompts w) \<noteq> []"
  shows "length (loop_states cl (snapshot_of w) 0 (batch_start w)) =
           Suc (length (promptsToProcess (prompts w))) \<and>
         (\<forall>k \<le> length (promptsToProcess (prompts w)).
            completedQueueCount (loop_states cl (snapshot_of w) 0 (batch_start w) ! k) = k \<and>
            totalQueueCount (loop_states cl (snapshot_of w) 0 (batch_start w) ! k) =
              length (promptsToProcess (prompts w)) \<and>
            isLoading (loop_states cl (snapshot_of w) 0 (batch_start w) ! k)) \<and>
         (\<forall>k < length (promptsToProcess (prompts w)).
            loop_states cl (snapshot_of w) 0 (batch_start w) ! Suc k =
              iteration cl (snapshot_of w) k (loop_states cl (snapshot_of w) 0 (batch_start w) ! k)) \<and>
         (\<forall>i st. completedQueueCount (iteration cl (snapshot_of w) i st) =
            completedQueueCount st + 1) \<and>
         generateImages cl w =
           (last (loop_states cl (snapshot_of w) 0 (batch_start w)))\<lparr>isLoading := False\<rparr> \<and>
         completedQueueCount (generateImages cl w) = length (promptsToProcess (prompts w)) \<and>
         totalQueueCount (generateImages cl w) = length (promptsToProcess (prompts w)) \<and>
         \<not> isLoading (generateImages cl w) \<and>
         0 < length (promptsToProcess (prompts w))"
proof -
  let ?L = "snapshot_of w"
  let ?N = "length (promptsToProcess (prompts w))"
  let ?sts = "loop_states cl ?L 0 (batch_start w)"
  have len: "length ?sts = Suc ?N"
    using length_loop_states [of 0 ?L cl "batch_start w"] by simp
  have states: "\<forall>k \<le> ?N. completedQueueCount (?sts ! k) = k \<and>
      totalQueueCount (?sts ! k) = ?N \<and> isLoading (?sts ! k)"
  proof (intro allI impI)
    fix k assume "k \<le> ?N"
    then have "k < length ?sts" using len by simp
    from loop_states_nth [OF this] show "completedQueueCount (?sts ! k) = k \<and>
      totalQueueCount (?sts ! k) = ?N \<and> isLoading (?sts ! k)" by simp
  qed
  have steps: "\<forall>k < ?N. ?sts ! Suc k = iteration cl ?L k (?sts ! k)"
  proof (intro allI impI)
    fix k assume "k < ?N"
    then have "Suc k < length ?sts" using len by simp
    from loop_states_succ [OF this] show "?sts ! Suc k = iteration cl ?L k (?sts ! k)" by simp
  qed
  have g: "generateImages cl w = (last ?sts)\<lparr>isLoading := False\<rparr>"
    using idle nonblank by (simp add: generateImages_run last_loop_states)
  have c: "completedQueueCount (process_from cl ?L 0 (batch_start w)) = ?N"
    using process_from_completed [of 0 ?L cl "batch_start w"] by simp
  have pos: "0 < ?N"
    using nonblank by (simp add: promptsToProcess_empty_iff)
  show ?thesis
    using len states steps g c pos by (simp add: last_loop_states process_from_flags)
qed

text \<open>The theorem for the example batch of two prompts.\<close>

theorem completed_count_progress_witness:
  "length (loop_states cat_dog_client (snapshot_of (initial_world\<lparr>prompts := js ''a cat\<newline>a dog''\<rparr>)) 0
      (batch_start (initial_world\<lparr>prompts := js ''a cat\<newline>a dog''\<rparr>))) = 3 \<and>
   completedQueueCount (loop_states cat_dog_client (snapshot_of (initial_world\<lparr>prompts := js ''a cat\<newline>a dog''\<rparr>)) 0
      (batch_start (initial_world\<lparr>prompts := js ''a cat\<newline>a dog''\<rparr>)) ! 1) = 1 \<and>
   isLoading (loop_states cat_dog_client (snapshot_of (initial_world\<lparr>prompts := js ''a cat\<newline>a dog''\<rparr>)) 0
      (batch_start (initial_world\<lparr>prompts := js ''a cat\<newline>a dog''\<rparr>)) ! 1) \<and>
   completedQueueCount (generateImages cat_dog_client (initial_world\<lparr>prompts := js ''a cat\<newline>a dog''\<rparr>)) = 2 \<and>
   totalQueueCount (generateImages cat_dog_client (initial_world\<lparr>prompts := js ''a cat\<newline>a dog''\<rparr>)) = 2 \<and>
   \<not> isLoading (generateImages cat_dog_client (initial_world\<lparr>prompts := js ''a cat\<newline>a dog''\<rparr>))"
proof -
  let ?w = "initial_world\<lparr>prompts := js ''a cat\<newline>a dog''\<rparr>"
  have a: "\<not> isLoading ?w" by (simp add: initial_world_def)
  have b: "trim (prompts ?w) \<noteq> []" by (simp add: cat_dog_trim)
  have n: "length (promptsToProcess (prompts ?w)) = 2" by (simp add: cat_dog_prompts)
  have k: "1 \<le> length (promptsToProcess (prompts ?w))" unfolding n by simp
  note run = completed_count_progress [OF a b, of cat_dog_client]
  note len = run [THEN conjunct1]
  note at_1 = run [THEN conjunct2, THEN conjunct1, rule_format, OF k]
  note rest = run [THEN conjunct2, THEN conjunct2, THEN conjunct2, THEN conjunct2]
  note final = rest [THEN conjunct2]
  show ?thesis
    using len at_1 final by (simp add: cat_dog_prompts)
qed

section \<open>Failed prompts\<close>

text \<open>
  C8, as the code has it. In a batch that starts, if the call for the prompt at position
  \<open>i\<close> fails with the thrown value \<open>e\<close>, then the entry at position \<open>i\<close> of the final
  Result Store has the original prompt, the status \<^verbatim>\<open>error\<close>, no images, and as its error
  text the message of \<open>e\<close> when \<open>e\<close> is an \<^verbatim>\<open>Error\<close>, empty or not, and the fixed text
  \<^verbatim>\<open>An unknown error occurred\<close> when \<open>e\<close> is any other value, whether it carries a message
  or not. That is the text of the specification (the carried message, or the generic text
  where no message is carried) whenever \<open>e\<close> is an \<^verbatim>\<open>Error\<close> of non-empty message or a
  value that is not an \<^verbatim>\<open>Error\<close> and carries no message.
\<close>

theorem failed_prompt_entry:
  assumes "\<not> isLoading w" and "trim (prompts w) \<noteq> []"
    and "i < length (promptsToProcess (prompts w))"
    and "cl (length (sent w) + i) (request_for (snapshot_of w) i) = Inl e"
  shows "results (generateImages cl w) ! i =
           \<lparr>prompt = promptsToProcess (prompts w) ! i,
            status = Error,
            images = None,
            error = Some (case e of JsError m \<Rightarrow> m
                          | NotAnError v \<Rightarrow> js ''An unknown error occurred'')\<rparr> \<and>
         ((case e of JsError m \<Rightarrow> m \<noteq> [] | NotAnError v \<Rightarrow> v = None) \<longrightarrow>
            error (results (generateImages cl w) ! i) = Some (spec_errorMessage e))"
proof -
  have entry: "results (generateImages cl w) ! i =
      settled_entry (promptsToProcess (prompts w) ! i) (Inl e)"
    using assms(4) generateImages_results_nth [OF assms(1-3), of cl] by simp
  have agree: "errorMessage e = spec_errorMessage e"
    if "case e of JsError m \<Rightarrow> m \<noteq> [] | NotAnError v \<Rightarrow> v = None"
    using that
    by (cases e) (simp_all add: errorMessage_def spec_errorMessage_def carried_message_def)
  show ?thesis
  proof (intro conjI impI)
    show "results (generateImages cl w) ! i =
           \<lparr>prompt = promptsToProcess (prompts w) ! i,
            status = Error,
            images = None,
            error = Some (case e of JsError m \<Rightarrow> m
                          | NotAnError v \<Rightarrow> js ''An unknown error occurred'')\<rparr>"
      by (simp add: entry settled_entry_def errorMessage_def)
  next
    assume "case e of JsError m \<Rightarrow> m \<noteq> [] | NotAnError v \<Rightarrow> v = None"
    then show "error (results (generateImages cl w) ! i) = Some (spec_errorMessage e)"
      using agree by (simp add: entry settled_entry_def)
  qed
qed

text \<open>
  The theorem for the failing second prompt of the example batch, whose \<^verbatim>\<open>Error\<close> has the
  message \<^verbatim>\<open>quota exceeded\<close>, for a first call that fails with a value that is not an
  \<^verbatim>\<open>Error\<close>, and for a second call that fails with an \<^verbatim>\<open>Error\<close> of empty message.
\<close>

theorem failed_prompt_entry_witness:
  "results (generateImages cat_dog_client (initial_world\<lparr>prompts := js ''a cat\<newline>a dog''\<rparr>)) ! 1 =
     \<lparr>prompt = js ''a dog'', status = Error, images = None, error = Some (js ''quota exceeded'')\<rparr> \<and>
   js ''quota exceeded'' \<noteq> [] \<and>
   error (results (generateImages cat_dog_client
      (initial_world\<lparr>prompts := js ''a cat\<newline>a dog''\<rparr>)) ! 1) =
     Some (spec_errorMessage (JsError (js ''quota exceeded''))) \<and>
   results (generateImages failing_client (initial_world\<lparr>prompts := js ''a cat\<newline>a dog''\<rparr>)) ! 0 =
     \<lparr>prompt = js ''a cat'', status = Error, images = None,
      error = Some (js ''An unknown error occurred'')\<rparr> \<and>
   results (generateImages failing_client (initial_world\<lparr>prompts := js ''a cat\<newline>a dog''\<rparr>)) ! 1 =
     \<lparr>prompt = js ''a dog'', status = Error, images = None, error = Some []\<rparr>"
proof -
  let ?w = "initial_world\<lparr>prompts := js ''a cat\<newline>a dog''\<rparr>"
  have a: "\<not> isLoading ?w" by (simp add: initial_world_def)
  have b: "trim (prompts ?w) \<noteq> []" by (simp add: cat_dog_trim)
  have c: "1 < length (promptsToProcess (prompts ?w))" by (simp add: cat_dog_prompts)
  have c0: "0 < length (promptsToProcess (prompts ?w))" by (simp add: cat_dog_prompts)
  have d: "cat_dog_client (length (sent ?w) + 1) (request_for (snapshot_of ?w) 1) =
        Inl (JsError (js ''quota exceeded''))"
    by (simp add: cat_dog_client_def request_for_def finalPrompt_def cat_dog_prompts
        initial_world_def) (simp add: js_def)
  have d0: "failing_client (length (sent ?w) + 0) (request_for (snapshot_of ?w) 0) =
        Inl (NotAnError (Some (js ''boom'')))"
    by (simp add: failing_client_def initial_world_def)
  have d1: "failing_client (length (sent ?w) + 1) (request_for (snapshot_of ?w) 1) =
        Inl (JsError [])"
    by (simp add: failing_client_def initial_world_def)
  have q: "js ''quota exceeded'' \<noteq> []" by (simp add: js_def)
  have h: "case JsError (js ''quota exceeded'') of JsError m \<Rightarrow> m \<noteq> []
            | NotAnError v \<Rightarrow> v = None"
    using q by simp
  note quota = failed_prompt_entry [where cl = cat_dog_client and i = 1, OF a b c d]
  note boom = failed_prompt_entry [where cl = failing_client and i = 0, OF a b c0 d0]
  note blank = failed_prompt_entry [where cl = failing_client and i = 1, OF a b c d1]
  note same = quota [THEN conjunct2, THEN mp, OF h]
  show ?thesis
    using quota [THEN conjunct1] same boom [THEN conjunct1] blank [THEN conjunct1] q
    by (simp add: cat_dog_prompts)
qed

text \<open>
  C8 as stated fails. An \<^verbatim>\<open>Error\<close> of empty message carries no message, and the entry gets
  the empty text, not the generic one; a thrown value that is not an \<^verbatim>\<open>Error\<close> and carries
  the message \<^verbatim>\<open>boom\<close> gets the generic text, not its message.
\<close>

theorem failed_prompt_message_not_extracted:
  "results (generateImages failing_client (initial_world\<lparr>prompts := js ''a cat\<newline>a dog''\<rparr>)) ! 1 =
     \<lparr>prompt = js ''a dog'', status = Error, images = None, error = Some []\<rparr> \<and>
   spec_errorMessage (JsError []) = js ''An unknown error occurred'' \<and>
   [] \<noteq> js ''An unknown error occurred'' \<and>
   results (generateImages failing_client (initial_world\<lparr>prompts := js ''a cat\<newline>a dog''\<rparr>)) ! 0 =
     \<lparr>prompt = js ''a cat'', status = Error, images = None,
      error = Some (js ''An unknown error occurred'')\<rparr> \<and>
   spec_errorMessage (NotAnError (Some (js ''boom''))) = js ''boom'' \<and>
   js ''An unknown error occurred'' \<noteq> js ''boom''"
proof -
  let ?w = "initial_world\<lparr>prompts := js ''a cat\<newline>a dog''\<rparr>"
  have a: "\<not> isLoading ?w" by (simp add: initial_world_def)
  have b: "trim (prompts ?w) \<noteq> []" by (simp add: cat_dog_trim)
  have c: "1 < length (promptsToProcess (prompts ?w))" by (simp add: cat_dog_prompts)
  have c0: "0 < length (promptsToProcess (prompts ?w))" by (simp add: cat_dog_prompts)
  have first: "results (generateImages failing_client ?w) ! 0 =
      \<lparr>prompt = js ''a cat'', status = Error, images = None,
       error = Some (js ''An unknown error occurred'')\<rparr>"
    using generateImages_results_nth [OF a b c0, of failing_client]
    by (simp add: failing_client_def initial_world_def cat_dog_prompts settled_entry_def
        errorMessage_def)
  have second: "results (generateImages failing_client ?w) ! 1 =
      \<lparr>prompt = js ''a dog'', status = Error, images = None, error = Some []\<rparr>"
    using generateImages_results_nth [OF a b c, of failing_client]
    by (simp add: failing_client_def initial_world_def cat_dog_prompts settled_entry_def
        errorMessage_def)
  have s1: "spec_errorMessage (JsError []) = js ''An unknown error occurred''"
    by (simp add: spec_errorMessage_def carried_message_def)
  have s2: "spec_errorMessage (NotAnError (Some (js ''boom''))) = js ''boom''"
    by (simp add: spec_errorMessage_def carried_message_def js_def)
  have n1: "[] \<noteq> js ''An unknown error occurred''" by (simp add: js_def)
  have n2: "js ''An unknown error occurred'' \<noteq> js ''boom''" by (simp add: js_def)
  show ?thesis
    using first second s1 s2 n1 n2 by (simp only: simp_thms)
qed

lemma double_rounding_exact:
  "double_rounding rnd \<Longrightarrow> \<bar>m\<bar> \<le> 2 ^ 53 \<Longrightarrow> rnd (real_of_int m / 2 ^ 32) = real_of_int m / 2 ^ 32"
  by (simp add: double_rounding_def)

lemma double_rounding_id: "double_rounding id"
  by (simp add: double_rounding_def mono_def)

lemma quotient_below_one:
  fixes c t :: nat
  assumes "c < t" and "t < 2 ^ 32"
  shows "real c / real t \<le> real_of_int (2 ^ 32 - 1) / 2 ^ 32"
proof -
  have t0: "0 < real t" using assms by simp
  have "c * 2 ^ 32 + t \<le> t * 2 ^ 32"
  proof -
    have "Suc c \<le> t" using assms by simp
    then have "Suc c * 2 ^ 32 \<le> t * 2 ^ 32" by (rule mult_le_mono1)
    moreover have "t \<le> 2 ^ 32" using assms by simp
    ultimately show ?thesis by simp
  qed
  then have "real (c * 2 ^ 32 + t) \<le> real (t * 2 ^ 32)" by (rule of_nat_mono)
  then have "real c * 2 ^ 32 \<le> (2 ^ 32 - 1) * real t" by (simp add: algebra_simps)
  then show ?thesis using t0 by (simp add: field_simps)
qed

lemma progress_full:
  assumes "double_rounding rnd" and "0 < t"
  shows "rnd (rnd (real t / real t) * 100) = 100"
proof -
  have one: "rnd 1 = 1"
    using double_rounding_exact [OF assms(1), of "2 ^ 32"] by simp
  have hundred: "rnd 100 = 100"
    using double_rounding_exact [OF assms(1), of "100 * 2 ^ 32"] by simp
  show ?thesis using assms(2) by (simp add: one hundred)
qed

lemma progress_partial:
  fixes c t :: nat
  assumes r: "double_rounding rnd" and "c < t" and "t < 2 ^ 32"
  shows "rnd (rnd (real c / real t) * 100) < 100"
proof -
  have m: "mono rnd" using r by (simp add: double_rounding_def)
  have "rnd (real c / real t) \<le> rnd (real_of_int (2 ^ 32 - 1) / 2 ^ 32)"
    using m quotient_below_one [OF assms(2,3)] by (rule monoD)
  also have "\<dots> = real_of_int (2 ^ 32 - 1) / 2 ^ 32"
    by (rule double_rounding_exact [OF r]) simp
  finally have "rnd (real c / real t) * 100 \<le> real_of_int (100 * (2 ^ 32 - 1)) / 2 ^ 32"
    by simp
  then have "rnd (rnd (real c / real t) * 100) \<le> rnd (real_of_int (100 * (2 ^ 32 - 1)) / 2 ^ 32)"
    using m by (simp add: monoD)
  also have "\<dots> = real_of_int (100 * (2 ^ 32 - 1)) / 2 ^ 32"
    by (rule double_rounding_exact [OF r]) simp
  also have "\<dots> < 100" by simp
  finally show ?thesis .
qed

section \<open>The progress percentage\<close>

text \<open>
  C3, as the code has it. The progress percentage is 0 when the total is 0, and otherwise
  the double precision value of completed / total * 100. When the total is not 0 (and,
  being an array length, below \<open>2 ^ 32\<close>) and the completed count is at most the total, the
  percentage is 100 exactly when the completed count equals the total.
\<close>

theorem progressPercentage_values:
  "(totalQueueCount w = 0 \<longrightarrow> progressPercentage rnd w = 0) \<and>
   (totalQueueCount w \<noteq> 0 \<longrightarrow>
      progressPercentage rnd w =
        rnd (rnd (real (completedQueueCount w) / real (totalQueueCount w)) * 100)) \<and>
   (double_rounding rnd \<and> totalQueueCount w \<noteq> 0 \<and> totalQueueCount w < 2 ^ 32 \<and>
    completedQueueCount w \<le> totalQueueCount w \<longrightarrow>
      (progressPercentage rnd w = 100 \<longleftrightarrow> completedQueueCount w = totalQueueCount w))"
proof (intro conjI impI)
  assume "totalQueueCount w = 0"
  then show "progressPercentage rnd w = 0" by (simp add: progressPercentage_def)
next
  assume "totalQueueCount w \<noteq> 0"
  then show "progressPercentage rnd w =
      rnd (rnd (real (completedQueueCount w) / real (totalQueueCount w)) * 100)"
    by (simp add: progressPercentage_def)
next
  assume a: "double_rounding rnd \<and> totalQueueCount w \<noteq> 0 \<and> totalQueueCount w < 2 ^ 32 \<and>
    completedQueueCount w \<le> totalQueueCount w"
  then have p: "progressPercentage rnd w =
      rnd (rnd (real (completedQueueCount w) / real (totalQueueCount w)) * 100)"
    by (simp add: progressPercentage_def)
  show "progressPercentage rnd w = 100 \<longleftrightarrow> completedQueueCount w = totalQueueCount w"
  proof (cases "completedQueueCount w = totalQueueCount w")
    case True
    then show ?thesis using a p progress_full [of rnd "totalQueueCount w"] by simp
  next
    case False
    then have "completedQueueCount w < totalQueueCount w" using a by simp
    then have "progressPercentage rnd w < 100"
      using a p progress_partial [of rnd "completedQueueCount w" "totalQueueCount w"] by simp
    then show ?thesis using False by simp
  qed
qed

text \<open>
  The theorem with exact arithmetic for the rounding: no batch yet, one of two prompts
  completed, both completed.
\<close>

theorem progressPercentage_values_witness:
  "progressPercentage id initial_world = 0 \<and>
   double_rounding id \<and>
   progressPercentage id (initial_world\<lparr>totalQueueCount := 2, completedQueueCount := 1\<rparr>) = 50 \<and>
   progressPercentage id (initial_world\<lparr>totalQueueCount := 2, completedQueueCount := 1\<rparr>) \<noteq> 100 \<and>
   progressPercentage id (initial_world\<lparr>totalQueueCount := 2, completedQueueCount := 2\<rparr>) = 100"
proof -
  let ?half = "initial_world\<lparr>totalQueueCount := 2, completedQueueCount := 1\<rparr>"
  let ?full = "initial_world\<lparr>totalQueueCount := 2, completedQueueCount := 2\<rparr>"
  have z: "totalQueueCount initial_world = 0" by (simp add: initial_world_def)
  have h: "double_rounding id \<and> totalQueueCount ?half \<noteq> 0 \<and> totalQueueCount ?half < 2 ^ 32 \<and>
      completedQueueCount ?half \<le> totalQueueCount ?half"
    by (simp add: double_rounding_id)
  have f: "double_rounding id \<and> totalQueueCount ?full \<noteq> 0 \<and> totalQueueCount ?full < 2 ^ 32 \<and>
      completedQueueCount ?full \<le> totalQueueCount ?full"
    by (simp add: double_rounding_id)
  have nz: "totalQueueCount ?half \<noteq> 0" by simp
  note zero = progressPercentage_values [of initial_world id, THEN conjunct1, rule_format, OF z]
  note formula = progressPercentage_values [of ?half id, THEN conjunct2, THEN conjunct1, rule_format, OF nz]
  note half = progressPercentage_values [of ?half id, THEN conjunct2, THEN conjunct2, rule_format, OF h]
  note full = progressPercentage_values [of ?full id, THEN conjunct2, THEN conjunct2, rule_format, OF f]
  have v: "progressPercentage id ?half = 50" using formula by simp
  show ?thesis using zero v half full by (simp add: double_rounding_id)
qed

text \<open>
  C3 as stated fails for the pair (0, 0), the counters of the component as constructed:
  the completed count equals the total, and the percentage is 0, not 100.
\<close>

theorem progressPercentage_initial:
  "completedQueueCount initial_world = totalQueueCount initial_world \<and>
   progressPercentage id initial_world = 0 \<and>
   progressPercentage id initial_world \<noteq> 100"
  by (simp add: progressPercentage_def initial_world_def)

section \<open>Facts about file names\<close>

lemma decimal_digit: "n < 10 \<Longrightarrow> decimal n = [48 + n]"
  by (subst decimal.simps) simp

lemma lower_unit_ws_as_space:
  "lower_unit (if is_ws c then 32 else c) = ws_as_space (lower_unit c)"
  by (auto simp: lower_unit_def ws_as_space_def is_ws_def)

lemma toLowerCase_ws_as_space: "toLowerCase (ws_as_space s) = ws_as_space (toLowerCase s)"
proof (induction s)
  case Nil
  show ?case by (simp add: toLowerCase_def ws_as_space_def)
next
  case (Cons c cs)
  have "toLowerCase (ws_as_space (c # cs)) =
      lower_unit (if is_ws c then 32 else c) @ toLowerCase (ws_as_space cs)"
    by (simp add: toLowerCase_def ws_as_space_def)
  also have "\<dots> = ws_as_space (lower_unit c) @ ws_as_space (toLowerCase cs)"
    by (simp only: lower_unit_ws_as_space Cons)
  also have "\<dots> = ws_as_space (toLowerCase (c # cs))"
    by (simp add: toLowerCase_def ws_as_space_def)
  finally show ?case .
qed

lemma spec_kept_ws_as_space: "spec_kept (if is_ws c then 32 else c) = kept c"
  by (auto simp: spec_kept_def kept_def is_ws_def)

lemma filter_spec_kept_ws_as_space:
  "filter spec_kept (ws_as_space s) = ws_as_space (filter kept s)"
  by (induction s) (simp_all add: ws_as_space_def spec_kept_ws_as_space)

lemma is_ws_space_for_ws: "is_ws (if is_ws c then 32 else c) = is_ws c"
  by (simp add: is_ws_def)

lemma dropWhile_ws_as_space:
  "dropWhile is_ws (ws_as_space s) = ws_as_space (dropWhile is_ws s)"
  by (induction s) (simp_all add: ws_as_space_def is_ws_space_for_ws)

lemma collapse_ws_as_space: "collapse_ws (ws_as_space s) = collapse_ws s"
proof (induction s rule: collapse_ws.induct)
  case 1
  show ?case by (simp add: ws_as_space_def)
next
  case (2 c cs)
  show ?case
  proof (cases "is_ws c")
    case True
    have "collapse_ws (ws_as_space (c # cs)) = 95 # collapse_ws (dropWhile is_ws (ws_as_space cs))"
      using True by (simp add: ws_as_space_def is_ws_def)
    also have "\<dots> = 95 # collapse_ws (dropWhile is_ws cs)"
      using 2(1) [OF True] by (simp add: dropWhile_ws_as_space)
    finally show ?thesis using True by simp
  next
    case False
    have "collapse_ws (ws_as_space (c # cs)) = c # collapse_ws (ws_as_space cs)"
      using False by (simp add: ws_as_space_def)
    then show ?thesis using False 2(2) by simp
  qed
qed

lemma sanitizedPrompt_spec:
  "sanitizedPrompt p = take 50 (collapse_ws (filter spec_kept (toLowerCase (ws_as_space p))))"
  by (simp add: sanitizedPrompt_def toLowerCase_ws_as_space filter_spec_kept_ws_as_space
      collapse_ws_as_space)

lemma filename_spec: "filename p i = spec_filename (ws_as_space p) i"
  unfolding filename_def spec_filename_def Let_def sanitizedPrompt_spec [symmetric] by simp

lemma ws_as_space_plain: "\<forall>c \<in> set p. is_ws c \<longrightarrow> c = 32 \<Longrightarrow> ws_as_space p = p"
  by (induction p) (auto simp: ws_as_space_def)

lemma symbols_vanish: "\<forall>c \<in> set p. symbol_unit c \<Longrightarrow> filter kept (toLowerCase p) = []"
  by (induction p) (auto simp: toLowerCase_def lower_unit_def kept_def symbol_unit_def)

lemma set_collapse_ws: "set (collapse_ws s) \<subseteq> insert 95 {c \<in> set s. \<not> is_ws c}"
proof (induction s rule: collapse_ws.induct)
  case 1
  show ?case by simp
next
  case (2 c cs)
  have "set (dropWhile is_ws cs) \<subseteq> set cs" by (rule set_dropWhileD [THEN subsetI])
  then show ?case using 2 by (cases "is_ws c") auto
qed

lemma sanitizedPrompt_charset:
  assumes "c \<in> set (sanitizedPrompt p)"
  shows "(97 \<le> c \<and> c \<le> 122) \<or> (48 \<le> c \<and> c \<le> 57) \<or> c = 45 \<or> c = 95"
proof -
  from assms have "c \<in> set (collapse_ws (filter kept (toLowerCase p)))"
    by (auto simp: sanitizedPrompt_def dest: in_set_takeD)
  then have "c = 95 \<or> (kept c \<and> \<not> is_ws c)"
    using set_collapse_ws [of "filter kept (toLowerCase p)"] by auto
  then show ?thesis by (auto simp: kept_def)
qed

lemma cat_sunset: "sanitizedPrompt (js ''A Cat! @Sunset#'') = js ''a_cat_sunset''"
  by (simp add: sanitizedPrompt_def toLowerCase_def lower_unit_def kept_def is_ws_def js_def)

lemma symbols_example: "\<forall>c \<in> set (js ''@#!''). symbol_unit c"
  by (simp add: symbol_unit_def is_ws_def js_def)

lemma spaces_example: "\<forall>c \<in> set (js ''A Cat! @Sunset#''). is_ws c \<longrightarrow> c = 32"
  by (simp add: is_ws_def js_def)

section \<open>The name of a downloaded image\<close>

text \<open>
  C5, as the code has it. For a non-empty image string, \<^verbatim>\<open>downloadImage\<close> clicks a link to
  the image whose file name is derived as the specification says once every white space
  character of the prompt (tab, line break, no-break space and the others of \<^verbatim>\<open>\s\<close>) is read
  as a space: lowercase the prompt, strip the characters outside \<^verbatim>\<open>[a-z0-9 -]\<close>, collapse
  white space runs to single underscores, truncate to 50 code units, default to
  \<^verbatim>\<open>generated_image\<close>, append an underscore, the index plus one and \<^verbatim>\<open>.jpeg\<close>. For a prompt
  whose only white space is the space, that is the derivation of the specification
  itself. The sanitized text has at most 50 code units, all of them in \<^verbatim>\<open>[a-z0-9_-]\<close>. The
  prompt \<^verbatim>\<open>A Cat! @Sunset#\<close> at index 0 yields \<^verbatim>\<open>a_cat_sunset_1.jpeg\<close>; the empty prompt, and
  every prompt made only of characters that are neither letters, digits, white space nor
  hyphens, yields \<^verbatim>\<open>generated_image_1.jpeg\<close> at index 0.
\<close>

theorem downloadImage_filename:
  "(imageB64 \<noteq> [] \<longrightarrow>
      downloadImage imageB64 p i =
        Some \<lparr>href = imageB64, download = spec_filename (ws_as_space p) i\<rparr>) \<and>
   ((\<forall>c \<in> set p. is_ws c \<longrightarrow> c = 32) \<longrightarrow> filename p i = spec_filename p i) \<and>
   length (sanitizedPrompt p) \<le> 50 \<and>
   (\<forall>c \<in> set (sanitizedPrompt p).
      (97 \<le> c \<and> c \<le> 122) \<or> (48 \<le> c \<and> c \<le> 57) \<or> c = 45 \<or> c = 95) \<and>
   filename (js ''A Cat! @Sunset#'') 0 = js ''a_cat_sunset_1.jpeg'' \<and>
   filename [] 0 = js ''generated_image_1.jpeg'' \<and>
   ((\<forall>c \<in> set p. symbol_unit c) \<longrightarrow> filename p 0 = js ''generated_image_1.jpeg'')"
proof (intro conjI impI ballI)
  assume "imageB64 \<noteq> []"
  then show "downloadImage imageB64 p i =
      Some \<lparr>href = imageB64, download = spec_filename (ws_as_space p) i\<rparr>"
    by (simp add: downloadImage_def filename_spec)
next
  assume "\<forall>c \<in> set p. is_ws c \<longrightarrow> c = 32"
  then show "filename p i = spec_filename p i"
    using filename_spec [of p i] by (simp add: ws_as_space_plain)
next
  show "length (sanitizedPrompt p) \<le> 50" by (simp add: sanitizedPrompt_def)
next
  fix c assume "c \<in> set (sanitizedPrompt p)"
  then show "(97 \<le> c \<and> c \<le> 122) \<or> (48 \<le> c \<and> c \<le> 57) \<or> c = 45 \<or> c = 95"
    by (rule sanitizedPrompt_charset)
next
  show "filename (js ''A Cat! @Sunset#'') 0 = js ''a_cat_sunset_1.jpeg''"
    unfolding filename_def cat_sunset by (simp add: decimal_digit js_def)
next
  show "filename [] 0 = js ''generated_image_1.jpeg''"
    by (simp add: filename_def sanitizedPrompt_def toLowerCase_def decimal_digit js_def)
next
  assume "\<forall>c \<in> set p. symbol_unit c"
  then have "sanitizedPrompt p = []" by (simp add: sanitizedPrompt_def symbols_vanish)
  then show "filename p 0 = js ''generated_image_1.jpeg''"
    by (simp add: filename_def decimal_digit js_def)
qed

text \<open>The theorem for the prompt of the example and for a prompt of three symbols.\<close>

theorem downloadImage_filename_witness:
  "downloadImage (js ''data:image/jpeg;base64,AAA'') (js ''A Cat! @Sunset#'') 0 =
     Some \<lparr>href = js ''data:image/jpeg;base64,AAA'', download = js ''a_cat_sunset_1.jpeg''\<rparr> \<and>
   spec_filename (js ''A Cat! @Sunset#'') 0 = js ''a_cat_sunset_1.jpeg'' \<and>
   sanitizedPrompt (js ''A Cat! @Sunset#'') = js ''a_cat_sunset'' \<and>
   length (js ''a_cat_sunset'') \<le> 50 \<and>
   filename (js ''@#!'') 0 = js ''generated_image_1.jpeg''"
proof -
  have img: "js ''data:image/jpeg;base64,AAA'' \<noteq> []" by (simp add: js_def)
  note cat = downloadImage_filename
    [of "js ''data:image/jpeg;base64,AAA''" "js ''A Cat! @Sunset#''" 0]
  note link = cat [THEN conjunct1, THEN mp, OF img]
  note same = cat [THEN conjunct2, THEN conjunct1, THEN mp, OF spaces_example]
  note len = cat [THEN conjunct2, THEN conjunct2, THEN conjunct1]
  note name = cat [THEN conjunct2, THEN conjunct2, THEN conjunct2, THEN conjunct2, THEN conjunct1]
  note symbols = downloadImage_filename [of "[]" "js ''@#!''" 0,
      THEN conjunct2, THEN conjunct2, THEN conjunct2, THEN conjunct2, THEN conjunct2,
      THEN conjunct2, THEN mp, OF symbols_example]
  have a: "spec_filename (js ''A Cat! @Sunset#'') 0 = js ''a_cat_sunset_1.jpeg''"
    using same name by simp
  have b: "spec_filename (ws_as_space (js ''A Cat! @Sunset#'')) 0 = js ''a_cat_sunset_1.jpeg''"
    using a spaces_example by (simp only: ws_as_space_plain)
  show ?thesis
    using link b a len symbols by (simp only: cat_sunset)
qed


text \<open>
  C5 as stated fails: a tab is outside \<^verbatim>\<open>[a-z0-9 -]\<close>, so that stripping it from the prompt
  \<^verbatim>\<open>"a\tb"\<close> leaves \<^verbatim>\<open>ab\<close> and the name \<^verbatim>\<open>ab_1.jpeg\<close>; the code keeps it, since \<^verbatim>\<open>\s\<close> matches
  it, turns it into an underscore and names the file \<^verbatim>\<open>a_b_1.jpeg\<close>.
\<close>

theorem downloadImage_tab:
  "downloadImage (js ''data:image/jpeg;base64,AAA'') (js ''a'' @ [9] @ js ''b'') 0 =
     Some \<lparr>href = js ''data:image/jpeg;base64,AAA'', download = js ''a_b_1.jpeg''\<rparr> \<and>
   spec_filename (js ''a'' @ [9] @ js ''b'') 0 = js ''ab_1.jpeg''"
  by (simp add: downloadImage_def filename_def spec_filename_def sanitizedPrompt_def
      toLowerCase_def lower_unit_def kept_def spec_kept_def is_ws_def decimal_digit js_def)

section \<open>Facts about the archive\<close>

lemma zip_pending_fields [simp]:
  "isZipping (zip_pending w)"
  "results (zip_pending w) = results w"
  "console (zip_pending w) = console w"
  "saved (zip_pending w) = saved w"
  by (simp_all add: zip_pending_def)

lemma zip_unset: "\<not> isZipping w \<Longrightarrow> w\<lparr>isZipping := False\<rparr> = w"
  by simp

lemma zip_logged:
  assumes "\<not> isZipping w"
  shows "(zip_pending w)\<lparr>console := c, isZipping := False\<rparr> = w\<lparr>console := c\<rparr>"
proof -
  have "(zip_pending w)\<lparr>console := c, isZipping := False\<rparr> =
      (w\<lparr>isZipping := False\<rparr>)\<lparr>console := c\<rparr>"
    by (simp add: zip_pending_def)
  then show ?thesis by (simp only: zip_unset [OF assms])
qed

lemma zip_saved:
  assumes "\<not> isZipping w"
  shows "(zip_pending w)\<lparr>saved := c, isZipping := False\<rparr> = w\<lparr>saved := c\<rparr>"
proof -
  have "(zip_pending w)\<lparr>saved := c, isZipping := False\<rparr> =
      (w\<lparr>isZipping := False\<rparr>)\<lparr>saved := c\<rparr>"
    by (simp add: zip_pending_def)
  then show ?thesis by (simp only: zip_unset [OF assms])
qed

lemma zip_entries_none: "\<forall>r \<in> set rs. \<not> successful r \<Longrightarrow> zip_entries rs = []"
proof -
  assume "\<forall>r \<in> set rs. \<not> successful r"
  then have "filter successful rs = []" by (simp add: filter_empty_conv)
  then show ?thesis by (simp add: zip_entries_def)
qed

lemma base64_AAA: "base64Data (js ''data:image/jpeg;base64,AAA'') = Some (js ''AAA'')"
  by (simp add: base64Data_def js_def split_at.simps)

lemma base64_BBB: "base64Data (js ''data:image/jpeg;base64,BBB'') = Some (js ''BBB'')"
  by (simp add: base64Data_def js_def split_at.simps)

lemma sanitized_cat_1: "sanitizedPrompt (js ''a cat!'') = js ''a_cat''"
  by (simp add: sanitizedPrompt_def toLowerCase_def lower_unit_def kept_def is_ws_def js_def)

lemma sanitized_cat_2: "sanitizedPrompt (js ''a cat?'') = js ''a_cat''"
  by (simp add: sanitizedPrompt_def toLowerCase_def lower_unit_def kept_def is_ws_def js_def)

lemma filename_cat_1: "filename (js ''a cat!'') 0 = js ''a_cat_1.jpeg''"
  unfolding filename_def sanitized_cat_1 by (simp add: decimal_digit js_def)

lemma filename_cat_2: "filename (js ''a cat?'') 0 = js ''a_cat_1.jpeg''"
  unfolding filename_def sanitized_cat_2 by (simp add: decimal_digit js_def)

lemma zip_entries_colliding:
  "zip_entries colliding_results = [(js ''a_cat_1.jpeg'', js ''BBB'')]"
  by (simp add: zip_entries_def colliding_results_def successful_def base64_AAA base64_BBB
      filename_cat_1 filename_cat_2)

lemma eligible_colliding:
  "eligible_images colliding_results =
     [js ''data:image/jpeg;base64,AAA'', js ''data:image/jpeg;base64,BBB'']"
  by (simp add: eligible_images_def colliding_results_def successful_def base64_AAA base64_BBB)

lemma length_update_le: "length (AList.update k v al) \<le> Suc (length al)"
  by (induction al) simp_all

lemma length_add_images:
  "length (add_images p imgs i z) \<le>
     length z + length (filter (\<lambda>imageB64. base64Data imageB64 \<noteq> None) imgs)"
proof (induction imgs arbitrary: i z)
  case Nil
  show ?case by simp
next
  case (Cons imageB64 rest)
  show ?case
  proof (cases "base64Data imageB64")
    case None
    then show ?thesis using Cons [of "Suc i" z] by simp
  next
    case (Some d)
    have "length (AList.update (filename p i) d z) \<le> Suc (length z)"
      by (rule length_update_le)
    then show ?thesis
      using Some Cons [of "Suc i" "AList.update (filename p i) d z"] by simp
  qed
qed

lemma length_add_results:
  "length (add_results rs z) \<le>
     length z +
     length (concat (map (\<lambda>r. case images r of
                               None \<Rightarrow> []
                             | Some imgs \<Rightarrow> filter (\<lambda>imageB64. base64Data imageB64 \<noteq> None) imgs)
                       rs))"
proof (induction rs arbitrary: z)
  case Nil
  show ?case by simp
next
  case (Cons r rs)
  show ?case
  proof (cases "images r")
    case None
    then show ?thesis using Cons [of z] by simp
  next
    case (Some imgs)
    then show ?thesis
      using Cons [of "add_images (prompt r) imgs 0 z"] length_add_images [of "prompt r" imgs 0 z]
      by simp
  qed
qed

lemma length_zip_entries: "length (zip_entries rs) \<le> length (eligible_images rs)"
  using length_add_results [of "filter successful rs" "[]"]
  by (simp add: zip_entries_def eligible_images_def)

section \<open>The single-flight flag of the archive export\<close>

text \<open>
  C9. A call of \<^verbatim>\<open>downloadAllAsZip\<close> made while the flag is set resolves with the state as it
  found it: nothing is saved, nothing is logged. The flag is set in the state in which an
  export waits for its package, so that a second call made then is such a call. A call made
  while the flag is not set always resolves and never rejects. When building the package
  is rejected, or saving it throws, the thrown value is passed to \<^verbatim>\<open>console.error\<close> and
  nothing is saved; otherwise the archive is saved as \<^verbatim>\<open>generated_images.zip\<close> and nothing is
  logged. In each of these cases the flag is clear in the state in which the call resolves,
  also when the Result Store has no successful entry, where the archive is empty.
\<close>

theorem downloadAllAsZip_single_flight:
  "(isZipping w \<longrightarrow> downloadAllAsZip pk w = Inr w) \<and>
   isZipping (zip_pending w) \<and>
   downloadAllAsZip pk (zip_pending w) = Inr (zip_pending w) \<and>
   (\<not> isZipping w \<longrightarrow>
      downloadAllAsZip pk w =
        Inr (case generateAsync pk (zip_entries (results w)) of
               Some e \<Rightarrow> w\<lparr>console := console w @ [e]\<rparr>
             | None \<Rightarrow>
                 (case saveAs pk (zip_entries (results w)) (js ''generated_images.zip'') of
                    Some e \<Rightarrow> w\<lparr>console := console w @ [e]\<rparr>
                  | None \<Rightarrow>
                      w\<lparr>saved := saved w @
                          [(js ''generated_images.zip'', zip_entries (results w))]\<rparr>))) \<and>
   (\<exists>w'. downloadAllAsZip pk w = Inr w' \<and> (\<not> isZipping w \<longrightarrow> \<not> isZipping w')) \<and>
   ((\<forall>r \<in> set (results w). \<not> successful r) \<longrightarrow> zip_entries (results w) = [])"
proof (intro conjI impI)
  assume "isZipping w"
  then show "downloadAllAsZip pk w = Inr w" by (simp add: downloadAllAsZip_def)
next
  show "isZipping (zip_pending w)" by simp
next
  show "downloadAllAsZip pk (zip_pending w) = Inr (zip_pending w)"
    by (simp add: downloadAllAsZip_def)
next
  assume idle: "\<not> isZipping w"
  show "downloadAllAsZip pk w =
        Inr (case generateAsync pk (zip_entries (results w)) of
               Some e \<Rightarrow> w\<lparr>console := console w @ [e]\<rparr>
             | None \<Rightarrow>
                 (case saveAs pk (zip_entries (results w)) (js ''generated_images.zip'') of
                    Some e \<Rightarrow> w\<lparr>console := console w @ [e]\<rparr>
                  | None \<Rightarrow>
                      w\<lparr>saved := saved w @
                          [(js ''generated_images.zip'', zip_entries (results w))]\<rparr>))"
  proof (cases "generateAsync pk (zip_entries (results w))")
    case (Some e)
    then have "zip_try pk (zip_pending w) = Inl e" by (simp add: zip_try_def)
    then show ?thesis using idle Some by (simp add: downloadAllAsZip_def zip_logged)
  next
    case None
    show ?thesis
    proof (cases "saveAs pk (zip_entries (results w)) (js ''generated_images.zip'')")
      case (Some e)
      then have "zip_try pk (zip_pending w) = Inl e" using None by (simp add: zip_try_def)
      then show ?thesis using idle None Some by (simp add: downloadAllAsZip_def zip_logged)
    next
      case none: None
      then have "zip_try pk (zip_pending w) =
          Inr ((zip_pending w)\<lparr>saved := saved w @
            [(js ''generated_images.zip'', zip_entries (results w))]\<rparr>)"
        using None by (simp add: zip_try_def)
      then show ?thesis using idle None none by (simp add: downloadAllAsZip_def zip_saved)
    qed
  qed
next
  show "\<exists>w'. downloadAllAsZip pk w = Inr w' \<and> (\<not> isZipping w \<longrightarrow> \<not> isZipping w')"
    by (simp add: downloadAllAsZip_def Let_def)
next
  assume "\<forall>r \<in> set (results w). \<not> successful r"
  then show "zip_entries (results w) = []" by (rule zip_entries_none)
qed

text \<open>
  The theorem for an export that is waiting, for the component as constructed (nothing to
  export) and for a store of two images whose packaging fails.
\<close>

theorem downloadAllAsZip_single_flight_witness:
  "isZipping (zip_pending initial_world) \<and>
   downloadAllAsZip working_packaging (zip_pending initial_world) = Inr (zip_pending initial_world) \<and>
   \<not> isZipping initial_world \<and>
   downloadAllAsZip working_packaging initial_world =
     Inr (initial_world\<lparr>saved := [(js ''generated_images.zip'', [])]\<rparr>) \<and>
   downloadAllAsZip failing_packaging (initial_world\<lparr>results := colliding_results\<rparr>) =
     Inr (initial_world\<lparr>results := colliding_results,
                        console := [JsError (js ''Invalid base64 input'')]\<rparr>)"
proof -
  let ?w = "initial_world\<lparr>results := colliding_results\<rparr>"
  have busy: "isZipping (zip_pending initial_world)" by simp
  have idle: "\<not> isZipping initial_world" by (simp add: initial_world_def)
  have idle': "\<not> isZipping ?w" by (simp add: initial_world_def)
  have none: "\<forall>r \<in> set (results initial_world). \<not> successful r" by (simp add: initial_world_def)
  note t = downloadAllAsZip_single_flight
  note noop = t [of "zip_pending initial_world" working_packaging, THEN conjunct1, THEN mp, OF busy]
  note run = t [of initial_world working_packaging, THEN conjunct2, THEN conjunct2,
      THEN conjunct2, THEN conjunct1, THEN mp, OF idle]
  note empty = t [of initial_world working_packaging, THEN conjunct2, THEN conjunct2,
      THEN conjunct2, THEN conjunct2, THEN conjunct2, THEN mp, OF none]
  note fail = t [of ?w failing_packaging, THEN conjunct2, THEN conjunct2,
      THEN conjunct2, THEN conjunct1, THEN mp, OF idle']
  have r1: "downloadAllAsZip working_packaging initial_world =
      Inr (initial_world\<lparr>saved := [(js ''generated_images.zip'', [])]\<rparr>)"
    using run unfolding empty by (simp add: working_packaging_def initial_world_def)
  have r2: "downloadAllAsZip failing_packaging ?w =
      Inr (?w\<lparr>console := [JsError (js ''Invalid base64 input'')]\<rparr>)"
    using fail by (simp add: failing_packaging_def initial_world_def)
  show ?thesis using busy noop idle r1 r2 by simp
qed

section \<open>Colliding names in the archive\<close>

text \<open>
  C10. The name of an archive entry is determined by the sanitized text of the prompt and
  the index of the image among the images of its prompt: prompts with the same sanitized
  text get the same name at the same index. The archive never has more entries than there
  are eligible images, and it can have fewer: for the store of the two successful prompts
  \<^verbatim>\<open>a cat!\<close> and \<^verbatim>\<open>a cat?\<close> with one image each, both images are eligible and both are named
  \<^verbatim>\<open>a_cat_1.jpeg\<close>, the archive that is saved has the single entry of that name, and the
  entry holds the data of the later image.
\<close>

theorem zip_filename_collision:
  "(sanitizedPrompt p = sanitizedPrompt q \<longrightarrow> filename p i = filename q i) \<and>
   length (zip_entries rs) \<le> length (eligible_images rs) \<and>
   prompt (colliding_results ! 0) \<noteq> prompt (colliding_results ! 1) \<and>
   filename (prompt (colliding_results ! 0)) 0 = filename (prompt (colliding_results ! 1)) 0 \<and>
   eligible_images colliding_results =
     [js ''data:image/jpeg;base64,AAA'', js ''data:image/jpeg;base64,BBB''] \<and>
   zip_entries colliding_results = [(js ''a_cat_1.jpeg'', js ''BBB'')] \<and>
   length (zip_entries colliding_results) < length (eligible_images colliding_results) \<and>
   downloadAllAsZip working_packaging (initial_world\<lparr>results := colliding_results\<rparr>) =
     Inr (initial_world\<lparr>results := colliding_results,
            saved := [(js ''generated_images.zip'', [(js ''a_cat_1.jpeg'', js ''BBB'')])]\<rparr>)"
proof (intro conjI impI)
  assume "sanitizedPrompt p = sanitizedPrompt q"
  then show "filename p i = filename q i" by (simp add: filename_def)
next
  show "length (zip_entries rs) \<le> length (eligible_images rs)" by (rule length_zip_entries)
next
  show "prompt (colliding_results ! 0) \<noteq> prompt (colliding_results ! 1)"
    by (simp add: colliding_results_def js_def)
next
  show "filename (prompt (colliding_results ! 0)) 0 = filename (prompt (colliding_results ! 1)) 0"
    by (simp add: colliding_results_def filename_cat_1 filename_cat_2)
next
  show "eligible_images colliding_results =
     [js ''data:image/jpeg;base64,AAA'', js ''data:image/jpeg;base64,BBB'']"
    by (rule eligible_colliding)
next
  show "zip_entries colliding_results = [(js ''a_cat_1.jpeg'', js ''BBB'')]"
    by (rule zip_entries_colliding)
next
  show "length (zip_entries colliding_results) < length (eligible_images colliding_results)"
    by (simp add: zip_entries_colliding eligible_colliding)
next
  show "downloadAllAsZip working_packaging (initial_world\<lparr>results := colliding_results\<rparr>) =
     Inr (initial_world\<lparr>results := colliding_results,
            saved := [(js ''generated_images.zip'', [(js ''a_cat_1.jpeg'', js ''BBB'')])]\<rparr>)"
    by (simp add: downloadAllAsZip_def zip_try_def zip_pending_def Let_def working_packaging_def
        zip_entries_colliding initial_world_def)
qed

text \<open>The first part of the theorem for the two prompts and the third image.\<close>

theorem zip_filename_collision_witness:
  "sanitizedPrompt (js ''a cat!'') = sanitizedPrompt (js ''a cat?'') \<and>
   js ''a cat!'' \<noteq> js ''a cat?'' \<and>
   filename (js ''a cat!'') 2 = filename (js ''a cat?'') 2 \<and>
   length (zip_entries colliding_results) = 1 \<and>
   length (eligible_images colliding_results) = 2"
proof -
  have same: "sanitizedPrompt (js ''a cat!'') = sanitizedPrompt (js ''a cat?'')"
    by (simp add: sanitized_cat_1 sanitized_cat_2)
  note t = zip_filename_collision [of "js ''a cat!''" "js ''a cat?''" 2 colliding_results]
  note names = t [THEN conjunct1, THEN mp, OF same]
  note entries = t [THEN conjunct2, THEN conjunct2, THEN conjunct2, THEN conjunct2,
      THEN conjunct2, THEN conjunct1]
  note eligible = t [THEN conjunct2, THEN conjunct2, THEN conjunct2, THEN conjunct2,
      THEN conjunct1]
  have differ: "js ''a cat!'' \<noteq> js ''a cat?''" by (simp add: js_def)
  show ?thesis using same names differ by (simp add: entries eligible)
qed

end
